theory Spec2Isabelle
  imports Complex_Main "HOL-Library.Log_Nat"
begin

section \<open>JavaScript numbers\<close>

text \<open>
  The analysis engine of \<^verbatim>\<open>audio-utils.js\<close> computes with JavaScript numbers. A finite
  number is modelled by a real, and the two zeros are one; the three special values are
  kept, because the code produces them: \<^verbatim>\<open>-Infinity\<close> and \<^verbatim>\<open>Infinity\<close> are the initial
  values of the running maximum and minimum in \<^verbatim>\<open>calculateDynamicRange\<close>, and
  \<^verbatim>\<open>0 / 0\<close> is \<^verbatim>\<open>NaN\<close>. The operations below are the exact ones; the rounding of a result
  to a double, or to single precision when it is stored in a \<^verbatim>\<open>Float32Array\<close>, is a
  separate function. It is applied to every operation of cutoff detection and of the two
  features computed from linear power, whose values depend on it. The classifier, the
  confidence, the dynamic range and the slope test are kept exact: what is proved of them
  is a range, an order or a comparison of sums of a few magnitudes.
\<close>

datatype jsnum = NaN | NegInf | Num real | PosInf

fun js_add :: "jsnum \<Rightarrow> jsnum \<Rightarrow> jsnum" where
  "js_add NaN _ = NaN"
| "js_add _ NaN = NaN"
| "js_add (Num a) (Num b) = Num (a + b)"
| "js_add PosInf NegInf = NaN"
| "js_add NegInf PosInf = NaN"
| "js_add PosInf _ = PosInf"
| "js_add _ PosInf = PosInf"
| "js_add NegInf _ = NegInf"
| "js_add _ NegInf = NegInf"

fun js_neg :: "jsnum \<Rightarrow> jsnum" where
  "js_neg NaN = NaN"
| "js_neg NegInf = PosInf"
| "js_neg (Num a) = Num (- a)"
| "js_neg PosInf = NegInf"

definition js_sub :: "jsnum \<Rightarrow> jsnum \<Rightarrow> jsnum" where
  "js_sub a b = js_add a (js_neg b)"

text \<open>The sign of a number: \<open>-1\<close>, \<open>0\<close> or \<open>1\<close>; \<open>NaN\<close> has none.\<close>

fun js_sign :: "jsnum \<Rightarrow> int" where
  "js_sign NaN = 0"
| "js_sign NegInf = - 1"
| "js_sign (Num a) = (if a < 0 then - 1 else if a = 0 then 0 else 1)"
| "js_sign PosInf = 1"

definition js_inf :: "int \<Rightarrow> jsnum" where
  "js_inf s = (if s < 0 then NegInf else if s = 0 then NaN else PosInf)"

fun js_mul :: "jsnum \<Rightarrow> jsnum \<Rightarrow> jsnum" where
  "js_mul NaN _ = NaN"
| "js_mul _ NaN = NaN"
| "js_mul (Num a) (Num b) = Num (a * b)"
| "js_mul a b = js_inf (js_sign a * js_sign b)"

fun js_div :: "jsnum \<Rightarrow> jsnum \<Rightarrow> jsnum" where
  "js_div NaN _ = NaN"
| "js_div _ NaN = NaN"
| "js_div (Num a) (Num b) = (if b = 0 then js_inf (js_sign (Num a)) else Num (a / b))"
| "js_div (Num a) b = Num 0"
| "js_div a (Num b) = js_inf (js_sign a * (if b < 0 then - 1 else 1))"
| "js_div a b = NaN"

fun js_abs :: "jsnum \<Rightarrow> jsnum" where
  "js_abs NaN = NaN"
| "js_abs NegInf = PosInf"
| "js_abs (Num a) = Num \<bar>a\<bar>"
| "js_abs PosInf = PosInf"

text \<open>Comparisons: every comparison with \<open>NaN\<close> is false.\<close>

fun js_lt :: "jsnum \<Rightarrow> jsnum \<Rightarrow> bool" where
  "js_lt NaN _ = False"
| "js_lt _ NaN = False"
| "js_lt (Num a) (Num b) = (a < b)"
| "js_lt NegInf b = (b \<noteq> NegInf)"
| "js_lt a PosInf = (a \<noteq> PosInf)"
| "js_lt _ _ = False"

definition js_gt :: "jsnum \<Rightarrow> jsnum \<Rightarrow> bool" where
  "js_gt a b = js_lt b a"

definition js_ge :: "jsnum \<Rightarrow> jsnum \<Rightarrow> bool" where
  "js_ge a b = (a \<noteq> NaN \<and> b \<noteq> NaN \<and> \<not> js_lt a b)"

definition js_le :: "jsnum \<Rightarrow> jsnum \<Rightarrow> bool" where
  "js_le a b = js_ge b a"

text \<open>\<^verbatim>\<open>Math.max\<close> and \<^verbatim>\<open>Math.min\<close> of two numbers: \<open>NaN\<close> if either is.\<close>

definition js_max :: "jsnum \<Rightarrow> jsnum \<Rightarrow> jsnum" where
  "js_max a b = (if a = NaN \<or> b = NaN then NaN else if js_lt a b then b else a)"

definition js_min :: "jsnum \<Rightarrow> jsnum \<Rightarrow> jsnum" where
  "js_min a b = (if a = NaN \<or> b = NaN then NaN else if js_lt b a then b else a)"

text \<open>\<^verbatim>\<open>Math.round\<close>: the nearest integer, a tie going up.\<close>

fun js_round :: "jsnum \<Rightarrow> jsnum" where
  "js_round (Num a) = Num (of_int \<lfloor>a + 1 / 2\<rfloor>)"
| "js_round a = a"

subsection \<open>Rounding to a binary floating-point format\<close>

text \<open>
  The nearest integer, a tie going to the even one.
\<close>

definition roundEven :: "real \<Rightarrow> int" where
  "roundEven x =
     (let f = \<lfloor>x\<rfloor>; d = x - of_int f
      in if d < 1 / 2 then f else if 1 / 2 < d then f + 1 else if even f then f else f + 1)"

text \<open>
  The binary exponent of a positive number \<open>a\<close>, that is the \<open>e\<close> with
  \<open>2\<^sup>e \<le> a < 2\<^sup>e\<^sup>+\<^sup>1\<close>, computed from the bit length of the integer part of \<open>a\<close> or of
  \<open>1 / a\<close>; and the exponent that a format with least exponent \<open>emin\<close> gives to a magnitude
  (the least exponent for zero and for the subnormal range).
\<close>

definition binLog :: "real \<Rightarrow> int" where
  "binLog a =
     (if 1 \<le> a then bitlen \<lfloor>a\<rfloor> - 1
      else let k = bitlen \<lfloor>1 / a\<rfloor> - 1 in if a * 2 ^ nat k = 1 then - k else - k - 1)"

definition binExponent :: "int \<Rightarrow> real \<Rightarrow> int" where
  "binExponent emin a = (if a = 0 then emin else max emin (binLog a))"

text \<open>
  Rounding to the nearest number of a binary format with \<open>p\<close> significant bits and
  exponents from \<open>emin\<close> to \<open>emax\<close>, ties to even: the magnitude is rounded to a multiple of
  the unit in the last place of its exponent, and a result whose exponent is above \<open>emax\<close>
  is an infinity.
\<close>

definition roundMagnitude :: "nat \<Rightarrow> int \<Rightarrow> real \<Rightarrow> real" where
  "roundMagnitude p emin a =
     (let q = power_int 2 (binExponent emin a - int p + 1) in of_int (roundEven (a / q)) * q)"

definition roundFloat :: "nat \<Rightarrow> int \<Rightarrow> int \<Rightarrow> real \<Rightarrow> jsnum" where
  "roundFloat p emin emax x =
     (if x = 0 then Num 0
      else
        let m = roundMagnitude p emin \<bar>x\<bar>
        in if 0 < m \<and> emax < binLog m then (if x < 0 then NegInf else PosInf)
           else Num (if x < 0 then - m else m))"

text \<open>
  The result of an arithmetic operation is rounded to a double (53 bits, exponents -1022 to
  1023); a number stored in a \<^verbatim>\<open>Float32Array\<close> is rounded to single precision (24 bits,
  exponents -126 to 127), as \<^verbatim>\<open>Math.fround\<close> does. The special values stay as they are.
\<close>

definition dround :: "jsnum \<Rightarrow> jsnum" where
  "dround v = (case v of Num x \<Rightarrow> roundFloat 53 (- 1022) 1023 x | _ \<Rightarrow> v)"

definition fround :: "jsnum \<Rightarrow> jsnum" where
  "fround v = (case v of Num x \<Rightarrow> roundFloat 24 (- 126) 127 x | _ \<Rightarrow> v)"

text \<open>A number that is \<^verbatim>\<open>-Infinity\<close> or finite and at most \<open>c\<close>.\<close>

definition notAbove :: "jsnum \<Rightarrow> real \<Rightarrow> bool" where
  "notAbove v c = (case v of NegInf \<Rightarrow> True | Num r \<Rightarrow> r \<le> c | _ \<Rightarrow> False)"

section \<open>Quality classifier\<close>

text \<open>The table \<^verbatim>\<open>this.qualityThresholds\<close> of the constructor.\<close>

record quality_level =
  minFreq :: real
  color :: string
  label :: string
  score :: real

definition excellent :: quality_level where
  "excellent = \<lparr>minFreq = 20000, color = ''var(--color-excellent)'', label = ''Lossless'', score = 100\<rparr>"

definition good :: quality_level where
  "good = \<lparr>minFreq = 18500, color = ''var(--color-good)'', label = ''High Quality'', score = 85\<rparr>"

definition moderate :: quality_level where
  "moderate = \<lparr>minFreq = 16000, color = ''var(--color-moderate)'', label = ''Moderate'', score = 60\<rparr>"

definition poor :: quality_level where
  "poor = \<lparr>minFreq = 14000, color = ''var(--color-bad)'', label = ''Low Quality'', score = 30\<rparr>"

definition fake :: quality_level where
  "fake = \<lparr>minFreq = 0, color = ''var(--color-bad)'', label = ''Fake/Upscaled'', score = 10\<rparr>"

text \<open>The value returned by \<^verbatim>\<open>findCutoffFrequency\<close>.\<close>

record cutoff_info =
  frequency :: jsnum
  bin :: nat
  isArtificial :: bool
  thresholdUsed :: real

text \<open>One entry of the list returned by \<^verbatim>\<open>findSpectralPeaks\<close>.\<close>

record peak =
  peak_bin :: nat
  peak_frequency :: jsnum
  magnitude :: real

text \<open>The value returned by \<^verbatim>\<open>performSpectralAnalysis\<close>.\<close>

record analysis =
  cutoff :: cutoff_info
  dynamicRange :: jsnum
  hfEnergy :: jsnum
  spectralFlatness :: jsnum
  peaks :: "peak list"
  frequencyData :: "real list"
  confidence :: jsnum

text \<open>
  The value returned by \<^verbatim>\<open>evaluateQuality\<close>. \<^verbatim>\<open>normalizedFreq\<close> is the number before
  \<^verbatim>\<open>toFixed(1)\<close> makes a string of it for display.
\<close>

record verdict =
  qualityLabel :: string
  qualityColor :: string
  qualityScore :: jsnum
  verdict_confidence :: jsnum
  isUpscaled :: bool
  normalizedFreq :: jsnum

text \<open>
  The score formulas of the four lower tiers, as \<^verbatim>\<open>evaluateQuality\<close> writes them in the
  branches of its chain of tests on \<^verbatim>\<open>freq\<close>.
\<close>

definition goodScore :: "jsnum \<Rightarrow> jsnum" where
  "goodScore freq = js_add (Num 85) (js_mul (js_div (js_sub freq (Num 18500)) (Num 1500)) (Num 15))"

definition moderateScore :: "jsnum \<Rightarrow> jsnum" where
  "moderateScore freq = js_add (Num 60) (js_mul (js_div (js_sub freq (Num 16000)) (Num 2500)) (Num 25))"

definition poorScore :: "jsnum \<Rightarrow> jsnum" where
  "poorScore freq = js_add (Num 30) (js_mul (js_div (js_sub freq (Num 14000)) (Num 2000)) (Num 30))"

definition fakeScore :: "jsnum \<Rightarrow> jsnum" where
  "fakeScore freq = js_max (Num 10) (js_mul (js_div freq (Num 14000)) (Num 30))"

text \<open>The tier chosen for a cutoff frequency, and its score before the adjustments.\<close>

definition tierOf :: "jsnum \<Rightarrow> quality_level" where
  "tierOf freq =
     (if js_ge freq (Num 20000) then excellent
      else if js_ge freq (Num 18500) then good
      else if js_ge freq (Num 16000) then moderate
      else if js_ge freq (Num 14000) then poor
      else fake)"

definition tierScore :: "jsnum \<Rightarrow> jsnum" where
  "tierScore freq =
     (if js_ge freq (Num 20000) then Num 100
      else if js_ge freq (Num 18500) then goodScore freq
      else if js_ge freq (Num 16000) then moderateScore freq
      else if js_ge freq (Num 14000) then poorScore freq
      else fakeScore freq)"

text \<open>The four adjustments, in the order of the source, each a conditional update.\<close>

definition adjustScore :: "analysis \<Rightarrow> jsnum \<Rightarrow> jsnum" where
  "adjustScore a s0 =
     (let s1 = (if js_gt (hfEnergy a) (Num 5) then js_add s0 (Num 5) else s0);
          s2 = (if js_gt (spectralFlatness a) (Num (8 / 10)) then js_add s1 (Num 5) else s1);
          s3 = (if js_gt (dynamicRange a) (Num 50) then js_add s2 (Num 5) else s2);
          s4 = (if isArtificial (cutoff a) then js_sub s3 (Num 15) else s3)
      in s4)"

definition evaluateQuality :: "analysis \<Rightarrow> jsnum \<Rightarrow> verdict" where
  "evaluateQuality a sampleRate =
     (let freq = frequency (cutoff a);
          quality = tierOf freq;
          normalizedScore = adjustScore a (tierScore freq);
          normalizedScore = js_min (Num 100) (js_max (Num 0) normalizedScore)
      in \<lparr>qualityLabel = label quality,
          qualityColor = color quality,
          qualityScore = js_round normalizedScore,
          verdict_confidence = confidence a,
          isUpscaled = isArtificial (cutoff a),
          normalizedFreq = js_min (Num 100) (js_mul (js_div freq (js_div sampleRate (Num 2))) (Num 100))\<rparr>)"

section \<open>Feature extractor\<close>

text \<open>
  A spectrum is the \<^verbatim>\<open>Float32Array\<close> filled by \<^verbatim>\<open>getFloatFrequencyData\<close>: one magnitude
  in decibels per frequency bin. The magnitudes are finite and modelled as reals. The loops
  of the source run over the indices, and so do the folds below.
\<close>

type_synonym spectrum = "real list"

text \<open>
  \<^verbatim>\<open>smoothArray\<close>: entry \<open>i\<close> is the mean of the entries \<open>j\<close> from
  \<^verbatim>\<open>Math.max(0, i - windowSize)\<close> to \<^verbatim>\<open>Math.min(data.length - 1, i + windowSize)\<close>; the
  inner loop keeps a running sum and a count. Each \<^verbatim>\<open>sum += data[j]\<close> and the division
  \<^verbatim>\<open>sum / count\<close> give a double, and the quotient is stored in
  \<^verbatim>\<open>smoothed\<close>, a \<^verbatim>\<open>Float32Array\<close>, which rounds it to single precision. The result is the
  list of the stored numbers.
\<close>

definition smoothAt :: "spectrum \<Rightarrow> nat \<Rightarrow> nat \<Rightarrow> jsnum" where
  "smoothAt data windowSize i =
     (let lo = (if windowSize \<le> i then i - windowSize else 0);
          hi = min (length data - 1) (i + windowSize);
          (sum, count) = fold (\<lambda>j (s, c). (dround (js_add s (Num (data ! j))), c + 1))
                           [lo ..< Suc hi] (Num 0, 0 :: nat)
      in fround (dround (js_div sum (Num (real count)))))"

definition smoothArray :: "spectrum \<Rightarrow> nat \<Rightarrow> jsnum list" where
  "smoothArray data windowSize = map (smoothAt data windowSize) [0 ..< length data]"

text \<open>
  \<^verbatim>\<open>detectArtificialCutoff\<close>. The window is computed on JavaScript numbers, so it is an
  \<open>int\<close> here: it is negative when the cutoff bin is the last bin or beyond. The loop runs
  for \<open>i\<close> from \<open>1\<close> while \<open>i < window\<close>, and every index it reads is inside the array.
\<close>

definition detectArtificialCutoff :: "spectrum \<Rightarrow> nat \<Rightarrow> bool" where
  "detectArtificialCutoff data cutoffBin =
     (let window = min 50 (int (length data) - int cutoffBin - 1)
      in if window < 10 then False
         else
           let slopeSum = fold (\<lambda>i s. s + (data ! (cutoffBin + i) - data ! (cutoffBin + i - 1)))
                            [1 ..< nat window] (0 :: real);
               avgSlope = slopeSum / real_of_int window
           in avgSlope < - 3)"

text \<open>
  \<^verbatim>\<open>findCutoffFrequency\<close>. The scan compares the stored numbers with the threshold. The
  division by \<^verbatim>\<open>frequencyData.length - 1\<close> is a division of JavaScript numbers: for a
  spectrum of one bin it is \<^verbatim>\<open>0 / 0\<close>; the quotient and the product with the Nyquist
  frequency are doubles.
\<close>

definition lastBinAbove :: "jsnum list \<Rightarrow> real \<Rightarrow> nat" where
  "lastBinAbove smoothed threshold =
     fold (\<lambda>i lastBin. if js_gt (smoothed ! i) (Num threshold) then i else lastBin)
       [0 ..< length smoothed] 0"

definition findCutoffFrequency :: "spectrum \<Rightarrow> cutoff_info" where
  "findCutoffFrequency data =
     (let threshold = - 80;
          nyquist = 44100 / 2;
          smoothed = smoothArray data 3;
          lastBin = lastBinAbove smoothed threshold;
          freq = dround (js_mul
                   (dround (js_div (Num (real lastBin)) (Num (real_of_int (int (length data) - 1)))))
                   (Num nyquist));
          artificial = detectArtificialCutoff data lastBin
      in \<lparr>frequency = js_round freq, bin = lastBin, isArtificial = artificial,
          thresholdUsed = threshold\<rparr>)"

text \<open>
  \<^verbatim>\<open>calculateDynamicRange\<close>: the running maximum starts at \<^verbatim>\<open>-Infinity\<close> and takes only
  magnitudes below zero, the running minimum starts at \<^verbatim>\<open>Infinity\<close>.
\<close>

definition rangeStep :: "real \<Rightarrow> jsnum \<times> jsnum \<Rightarrow> jsnum \<times> jsnum" where
  "rangeStep x = (\<lambda>(mx, mn).
     (if js_gt (Num x) mx \<and> x < 0 then Num x else mx,
      if js_lt (Num x) mn then Num x else mn))"

definition calculateDynamicRange :: "spectrum \<Rightarrow> jsnum" where
  "calculateDynamicRange data =
     (let (mx, mn) = fold (\<lambda>i. rangeStep (data ! i)) [0 ..< length data] (NegInf, PosInf)
      in js_abs (js_sub mx mn))"

text \<open>
  \<^verbatim>\<open>Math.pow(10, x)\<close>, \<^verbatim>\<open>Math.log\<close> and \<^verbatim>\<open>Math.exp\<close>. The language leaves the accuracy of
  the three to the engine; here each returns the double nearest to the real value, which
  is the value of an engine up to its last bits. A power too small for a double is 0, and
  \<^verbatim>\<open>Math.log(0)\<close> is \<^verbatim>\<open>-Infinity\<close>.
\<close>

fun js_pow10 :: "jsnum \<Rightarrow> jsnum" where
  "js_pow10 NaN = NaN"
| "js_pow10 NegInf = Num 0"
| "js_pow10 (Num a) = dround (Num (10 powr a))"
| "js_pow10 PosInf = PosInf"

fun js_log :: "jsnum \<Rightarrow> jsnum" where
  "js_log NaN = NaN"
| "js_log NegInf = NaN"
| "js_log (Num a) = (if a < 0 then NaN else if a = 0 then NegInf else dround (Num (ln a)))"
| "js_log PosInf = PosInf"

fun js_exp :: "jsnum \<Rightarrow> jsnum" where
  "js_exp NaN = NaN"
| "js_exp NegInf = Num 0"
| "js_exp (Num a) = dround (Num (exp a))"
| "js_exp PosInf = PosInf"

text \<open>
  The linear power of a bin, \<^verbatim>\<open>Math.pow(10, frequencyData[i] / 10)\<close>.
\<close>

definition binPower :: "real \<Rightarrow> jsnum" where
  "binPower db = js_pow10 (dround (js_div (Num db) (Num 10)))"

text \<open>
  \<^verbatim>\<open>calculateHFEnergy\<close>: the total of the powers, and the total over the bins \<open>i\<close> with
  \<^verbatim>\<open>i > cutoffBin * 0.8\<close>.
\<close>

definition calculateHFEnergy :: "spectrum \<Rightarrow> cutoff_info \<Rightarrow> jsnum" where
  "calculateHFEnergy data c =
     (let cutoffBin = bin c;
          (totalEnergy, hf) =
             fold (\<lambda>i (t, h). let power = binPower (data ! i)
                               in (dround (js_add t power),
                                   if js_gt (Num (real i))
                                        (dround (js_mul (Num (real cutoffBin)) (dround (Num (8 / 10)))))
                                   then dround (js_add h power) else h))
               [0 ..< length data] (Num 0, Num 0)
      in dround (js_mul (dround (js_div hf totalEnergy)) (Num 100)))"

text \<open>
  \<^verbatim>\<open>calculateSpectralFlatness\<close>. The variable \<^verbatim>\<open>geometricMean\<close> holds the sum of the
  logarithms of the powers during the loop, \<^verbatim>\<open>arithmeticMean\<close> the sum of the powers.
\<close>

definition calculateSpectralFlatness :: "spectrum \<Rightarrow> jsnum" where
  "calculateSpectralFlatness data =
     (let n = length data;
          (g, a) = fold (\<lambda>i (g, a). let power = binPower (data ! i)
                                     in (dround (js_add g (js_log power)), dround (js_add a power)))
                     [0 ..< n] (Num 0, Num 0);
          geometricMean = js_exp (dround (js_div g (Num (real n))));
          arithmeticMean = dround (js_div a (Num (real n)))
      in dround (js_div geometricMean arithmeticMean))"

text \<open>
  \<^verbatim>\<open>findSpectralPeaks\<close>. The inner loop compares bin \<open>i\<close> with its neighbours at the
  distances \<open>j = 1, ..., windowSize\<close> and stops at the first that is not below it. The
  outer loop runs for \<open>i\<close> from \<open>windowSize\<close> while \<open>i < length - windowSize\<close> (no bin
  when the array is shorter), so every index read is inside the array.
\<close>

fun isPeakScan :: "spectrum \<Rightarrow> nat \<Rightarrow> nat list \<Rightarrow> bool" where
  "isPeakScan data i [] = True"
| "isPeakScan data i (j # js) =
     (if data ! i \<le> data ! (i - j) \<or> data ! i \<le> data ! (i + j) then False
      else isPeakScan data i js)"

definition mkPeak :: "spectrum \<Rightarrow> nat \<Rightarrow> peak" where
  "mkPeak data i =
     \<lparr>peak_bin = i,
      peak_frequency = js_mul (js_div (Num (real i)) (Num (real_of_int (int (length data) - 1))))
                         (Num (44100 / 2)),
      magnitude = data ! i\<rparr>"

definition findSpectralPeaks :: "spectrum \<Rightarrow> peak list" where
  "findSpectralPeaks data =
     (let windowSize = 5;
          found = fold (\<lambda>i ps. if isPeakScan data i [1 ..< Suc windowSize] \<and> data ! i > - 70
                                then ps @ [mkPeak data i] else ps)
                    [windowSize ..< length data - windowSize] []
      in take 10 found)"

text \<open>\<^verbatim>\<open>calculateConfidence\<close>: three multiplicative penalties, then rounded and clamped.\<close>

definition calculateConfidence :: "spectrum \<Rightarrow> cutoff_info \<Rightarrow> jsnum" where
  "calculateConfidence data c =
     (let c0 = Num 100;
          c1 = (if js_lt (calculateDynamicRange data) (Num 30) then js_mul c0 (Num (7 / 10)) else c0);
          c2 = (if isArtificial c then js_mul c1 (Num (5 / 10)) else c1);
          c3 = (if length (findSpectralPeaks data) > 5 then js_mul c2 (Num (8 / 10)) else c2)
      in js_min (Num 100) (js_max (Num 0) (js_round c3)))"

text \<open>
  The part of \<^verbatim>\<open>performSpectralAnalysis\<close> after the Web Audio analyser has filled
  \<^verbatim>\<open>frequencyData\<close>: the features computed from that array.
\<close>

definition performSpectralAnalysis :: "spectrum \<Rightarrow> analysis" where
  "performSpectralAnalysis data =
     (let c = findCutoffFrequency data
      in \<lparr>cutoff = c,
          dynamicRange = calculateDynamicRange data,
          hfEnergy = calculateHFEnergy data c,
          spectralFlatness = calculateSpectralFlatness data,
          peaks = findSpectralPeaks data,
          frequencyData = data,
          confidence = calculateConfidence data c\<rparr>)"

text \<open>
  An analysis whose cutoff is exactly 20000 Hz and flagged artificial, with none of the
  three bonuses.
\<close>

definition losslessArtificial :: analysis where
  "losslessArtificial =
     \<lparr>cutoff = \<lparr>frequency = Num 20000, bin = 1857, isArtificial = True, thresholdUsed = - 80\<rparr>,
      dynamicRange = Num 40, hfEnergy = Num 1, spectralFlatness = Num (1 / 10), peaks = [],
      frequencyData = [], confidence = Num 50\<rparr>"


text \<open>
  The dynamic range as the specification words it: the largest magnitude below zero, or 0
  when no magnitude is below zero, minus the smallest magnitude.
\<close>

definition dynamicRangeSpec :: "spectrum \<Rightarrow> real" where
  "dynamicRangeSpec data =
     (let negatives = filter (\<lambda>x. x < 0) data
      in (if negatives = [] then 0 else Max (set negatives)) - Min (set data))"

text \<open>
  The symmetric moving average of radius \<open>r\<close> as the specification words it: the mean
  of the bins of the spectrum whose distance from bin \<open>i\<close> is at most \<open>r\<close>.
\<close>

definition movingAverage :: "spectrum \<Rightarrow> nat \<Rightarrow> nat \<Rightarrow> real" where
  "movingAverage data r i =
     (let window = filter (\<lambda>j. i \<le> j + r \<and> j \<le> i + r) [0 ..< length data]
      in sum_list (map (nth data) window) / real (length window))"

text \<open>
  The same moving average as the code computes and stores it: the bins of the window are
  added one by one in double precision, the sum is divided by their number, and the
  quotient is rounded to single precision.
\<close>

definition storedAverage :: "spectrum \<Rightarrow> nat \<Rightarrow> nat \<Rightarrow> jsnum" where
  "storedAverage data r i =
     (let window = filter (\<lambda>j. i \<le> j + r \<and> j \<le> i + r) [0 ..< length data];
          sum = fold (\<lambda>x s. dround (js_add s (Num x))) (map (nth data) window) (Num 0)
      in fround (dround (js_div sum (Num (real (length window))))))"

text \<open>
  A spectrum of ten bins with two loud bins; and one of 20 bins at -80 dB, except bin 10,
  which is one unit in the last place of single precision above -80 dB.
\<close>

definition dipSpectrum :: spectrum where
  "dipSpectrum = [- 90, - 10, - 10, - 90, - 90, - 90, - 90, - 90, - 90, - 90]"

definition nearThreshold :: spectrum where
  "nearThreshold = replicate 10 (- 80) @ [- 80 + 1 / 131072] @ replicate 9 (- 80)"



text \<open>
  The artifact test as the specification words it. The slope at bin \<open>k\<close> is the step
  from bin \<open>k - 1\<close> to bin \<open>k\<close>; the average is taken over the \<open>w\<close> bins that
  follow the cutoff bin, each counted once.
\<close>

definition averageSlopeAfter :: "spectrum \<Rightarrow> nat \<Rightarrow> nat \<Rightarrow> real" where
  "averageSlopeAfter data cutoffBin w =
     sum_list (map (\<lambda>k. data ! k - data ! (k - 1)) [Suc cutoffBin ..< Suc (cutoffBin + w)]) / real w"

definition artificialCutoffSpec :: "spectrum \<Rightarrow> nat \<Rightarrow> bool" where
  "artificialCutoffSpec data cutoffBin =
     (let remaining = length data - Suc cutoffBin
      in if remaining < 10 then False
         else averageSlopeAfter data cutoffBin (min 50 remaining) < - 3)"

text \<open>
  A spectrum of 16 bins that falls by 3.1 dB at every bin, from -70 dB.
\<close>

definition rolloff :: spectrum where
  "rolloff = map (\<lambda>i. - 70 - 31 / 10 * real i) [0 ..< 16]"

text \<open>
  A local peak as the specification words it: the magnitude of the bin strictly exceeds
  that of every other bin of the spectrum within 5 bins of it, on both sides, and exceeds
  -70 dB.
\<close>

definition isLocalPeak :: "spectrum \<Rightarrow> nat \<Rightarrow> bool" where
  "isLocalPeak data i =
     (list_all (\<lambda>k. data ! k < data ! i)
        (filter (\<lambda>k. k \<noteq> i \<and> i \<le> k + 5 \<and> k \<le> i + 5) [0 ..< length data])
      \<and> data ! i > - 70)"

text \<open>
  The bins the outer loop of \<^verbatim>\<open>findSpectralPeaks\<close> visits: those with five bins of the
  spectrum on each side.
\<close>

definition hasFullWindow :: "spectrum \<Rightarrow> nat \<Rightarrow> bool" where
  "hasFullWindow data i = (5 \<le> i \<and> i + 5 < length data)"

text \<open>
  A spectrum of 16 bins whose only loud bin is bin 4, and one with a second loud bin at
  bin 10.
\<close>

definition edgePeak :: spectrum where
  "edgePeak = [- 90, - 90, - 90, - 90, - 20, - 90, - 90, - 90, - 90, - 90, - 90, - 90, - 90, - 90, - 90, - 90]"

definition twinPeaks :: spectrum where
  "twinPeaks = [- 90, - 90, - 90, - 90, - 20, - 90, - 90, - 90, - 90, - 90, - 30, - 90, - 90, - 90, - 90, - 90]"

section \<open>Batch scheduler\<close>

text \<open>
  The queues and the results of the detector are JavaScript \<^verbatim>\<open>Map\<close>s, which keep their
  entries in the order of insertion: association lists. \<^verbatim>\<open>set\<close> replaces the value of a
  key that is present, in place, and adds a new key at the end.
\<close>

type_synonym ('k, 'v) jsmap = "('k \<times> 'v) list"

fun mapSet :: "'k \<Rightarrow> 'v \<Rightarrow> ('k, 'v) jsmap \<Rightarrow> ('k, 'v) jsmap" where
  "mapSet k v [] = [(k, v)]"
| "mapSet k v ((k', v') # m) = (if k' = k then (k, v) # m else (k', v') # mapSet k v m)"

definition mapDelete :: "'k \<Rightarrow> ('k, 'v) jsmap \<Rightarrow> ('k, 'v) jsmap" where
  "mapDelete k m = filter (\<lambda>(k', v). k' \<noteq> k) m"

text \<open>
  An entry of the queue, as \<^verbatim>\<open>handleFiles\<close> creates it, without \<^verbatim>\<open>progress\<close> and
  \<^verbatim>\<open>startTime\<close> (a clock reading). The field \<^verbatim>\<open>card\<close> is the DOM element of the result
  card, named here by the file id in its \<^verbatim>\<open>dataset\<close>, or \<^verbatim>\<open>null\<close>.
\<close>

datatype status = Queued | Processing

record 'f fileData =
  fileId :: nat
  fileObj :: 'f
  status :: status
  cardEl :: "nat option"

text \<open>
  What can be thrown inside \<^verbatim>\<open>analyzeAudio\<close>: a \<^verbatim>\<open>TypeError\<close> when a property of
  \<^verbatim>\<open>null\<close> is read, and the failure of the Web Audio part (reading the file, decoding it,
  rendering the spectrum). The promise of an \<^verbatim>\<open>async\<close> call is fulfilled, or rejected when
  an error leaves the call.
\<close>

datatype js_error = TypeError | DecodeError

datatype promise = Fulfilled | Rejected js_error

text \<open>
  The fields of the detector that the scheduler reads and writes. \<open>grid\<close> is the DOM: the
  result cards, newest first, each with the text of its quality tag.
\<close>

record 'f detector =
  queue :: "(nat, 'f fileData) jsmap"
  processingQueue :: "(nat, 'f fileData) jsmap"
  results :: "(nat, verdict) jsmap"
  isProcessing :: bool
  concurrentLimit :: nat
  totalFiles :: nat
  processedCount :: nat
  grid :: "(nat, string) jsmap"

text \<open>
  The Web Audio part of the pipeline is outside the program: for a file, either it fails or
  it yields the sample rate and the spectrum.
\<close>

type_synonym 'f decoder = "'f \<Rightarrow> (jsnum \<times> spectrum) option"

definition newDetector :: "'f detector" where
  "newDetector =
     \<lparr>queue = [], processingQueue = [], results = [], isProcessing = False,
      concurrentLimit = 2, totalFiles = 0, processedCount = 0, grid = []\<rparr>"

text \<open>
  \<^verbatim>\<open>createCardUI\<close> adds a card for the file to the grid and returns it.
  \<^verbatim>\<open>updateCardStatus\<close> starts with \<^verbatim>\<open>card.querySelector\<close>, which throws a
  \<^verbatim>\<open>TypeError\<close> when \<^verbatim>\<open>card\<close> is \<^verbatim>\<open>null\<close>.
\<close>

definition createCardUI :: "'f fileData \<Rightarrow> 'f detector \<Rightarrow> nat \<times> 'f detector" where
  "createCardUI fd d = (fileId fd, d\<lparr>grid := (fileId fd, []) # grid d\<rparr>)"

definition updateCardStatus :: "nat option \<Rightarrow> string \<Rightarrow> 'f detector \<Rightarrow> js_error + 'f detector" where
  "updateCardStatus c st d =
     (case c of
        None \<Rightarrow> Inl TypeError
      | Some k \<Rightarrow>
          Inr (if st = ''processing'' then d\<lparr>grid := mapSet k ''Analyzing...'' (grid d)\<rparr>
               else if st = ''error'' then d\<lparr>grid := mapSet k ''Error'' (grid d)\<rparr>
               else d))"

text \<open>
  \<^verbatim>\<open>analyzeAudio\<close>: the body of its \<^verbatim>\<open>try\<close> block, which either ends or throws an
  error in some state, and then the whole function with its \<^verbatim>\<open>catch\<close> block. The
  \<^verbatim>\<open>catch\<close> block calls \<^verbatim>\<open>updateCardStatus\<close> before it removes the item from
  \<^verbatim>\<open>processingQueue\<close>; an error thrown there leaves the function.

  An \<^verbatim>\<open>async\<close> function runs without interruption up to its first \<^verbatim>\<open>await\<close>. A call
  for an item without a card throws before the first \<^verbatim>\<open>await\<close>, in the \<^verbatim>\<open>try\<close> block
  and again in the \<^verbatim>\<open>catch\<close> block, so it has run to its end when it returns its promise.
  For an item with a card the model runs the calls of a batch one after the other, each to
  its end.
\<close>

definition analyzeTry :: "'f decoder \<Rightarrow> 'f fileData \<Rightarrow> 'f detector \<Rightarrow> (js_error \<times> 'f detector) + 'f detector" where
  "analyzeTry decode fd d =
     (let d1 = d\<lparr>processingQueue := mapSet (fileId fd) (fd\<lparr>status := Processing\<rparr>) (processingQueue d)\<rparr>
      in case updateCardStatus (cardEl fd) ''processing'' d1 of
           Inl e \<Rightarrow> Inl (e, d1)
         | Inr d2 \<Rightarrow>
             (case decode (fileObj fd) of
                None \<Rightarrow> Inl (DecodeError, d2)
              | Some (sampleRate, spectrum) \<Rightarrow>
                  (case cardEl fd of
                     None \<Rightarrow> Inl (TypeError, d2)
                   | Some k \<Rightarrow>
                       let analysis = performSpectralAnalysis spectrum;
                           verdict = evaluateQuality analysis sampleRate;
                           d3 = d2\<lparr>grid := mapSet k (qualityLabel verdict) (grid d2)\<rparr>;
                           d4 = d3\<lparr>results := mapSet (fileId fd) verdict (results d3)\<rparr>;
                           d5 = d4\<lparr>processedCount := processedCount d4 + 1\<rparr>;
                           d6 = d5\<lparr>processingQueue := mapDelete (fileId fd) (processingQueue d5)\<rparr>
                       in Inr d6)))"

definition analyzeAudio :: "'f decoder \<Rightarrow> 'f fileData \<Rightarrow> 'f detector \<Rightarrow> promise \<times> 'f detector" where
  "analyzeAudio decode fd d =
     (case analyzeTry decode fd d of
        Inr d' \<Rightarrow> (Fulfilled, d')
      | Inl (e, d') \<Rightarrow>
          (case updateCardStatus (cardEl fd) ''error'' d' of
             Inl e' \<Rightarrow> (Rejected e', d')
           | Inr d'' \<Rightarrow>
               (Fulfilled, d''\<lparr>processingQueue := mapDelete (fileId fd) (processingQueue d'')\<rparr>)))"

text \<open>
  \<^verbatim>\<open>processQueue\<close>, from its guard to the code after
  \<^verbatim>\<open>await Promise.allSettled\<close>. \<open>startItem\<close> is the body of the first \<^verbatim>\<open>forEach\<close>: the
  card that \<^verbatim>\<open>createCardUI\<close> returns is dropped there. When files remain in the queue a
  timer is set that calls \<^verbatim>\<open>processQueue\<close> again. The model is one call of
  \<^verbatim>\<open>processQueue\<close> with no other event of the page in between; the limit is a natural
  number.
\<close>

definition startItem :: "'f fileData \<Rightarrow> 'f detector \<Rightarrow> 'f detector" where
  "startItem fd d =
     (let d1 = d\<lparr>queue := mapDelete (fileId fd) (queue d)\<rparr>;
          d2 = d1\<lparr>processingQueue := mapSet (fileId fd) fd (processingQueue d1)\<rparr>
      in snd (createCardUI fd d2))"

definition processQueue :: "'f decoder \<Rightarrow> 'f detector \<Rightarrow> 'f detector" where
  "processQueue decode d =
     (if isProcessing d \<or> queue d = [] then d
      else
        let d1 = d\<lparr>isProcessing := True\<rparr>;
            batchSize = min (concurrentLimit d1) (length (queue d1));
            batch = map snd (take batchSize (queue d1));
            d2 = fold startItem batch d1;
            d3 = fold (\<lambda>fd d. snd (analyzeAudio decode fd d)) batch d2;
            d4 = d3\<lparr>isProcessing := False\<rparr>
        in if queue d4 \<noteq> [] then d4
           else d4\<lparr>processedCount := 0, totalFiles := 0\<rparr>)"

text \<open>
  \<^verbatim>\<open>handleFiles\<close>, after the filter on the file type; each file comes with the id that
  \<^verbatim>\<open>generateId\<close> returned for it. Every entry is created with \<^verbatim>\<open>card: null\<close>.
\<close>

definition enqueue :: "nat \<times> 'f \<Rightarrow> 'f detector \<Rightarrow> 'f detector" where
  "enqueue = (\<lambda>(k, f) d.
     d\<lparr>queue := mapSet k \<lparr>fileId = k, fileObj = f, status = Queued, cardEl = None\<rparr> (queue d)\<rparr>)"

definition handleFiles :: "'f decoder \<Rightarrow> (nat \<times> 'f) list \<Rightarrow> 'f detector \<Rightarrow> 'f detector" where
  "handleFiles decode audioFiles d =
     (if audioFiles = [] then d
      else
        let d1 = d\<lparr>totalFiles := totalFiles d + length audioFiles\<rparr>;
            d2 = fold enqueue audioFiles d1
        in processQueue decode d2)"

text \<open>
  The chain of timers: \<^verbatim>\<open>processQueue\<close> again and again while files are left in the
  queue. The chain need not end (a limit of 0 moves nothing), so it is run with fuel, and
  the result is \<open>None\<close> when the fuel runs out first.
\<close>

fun runTimers :: "'f decoder \<Rightarrow> nat \<Rightarrow> 'f detector \<Rightarrow> 'f detector option" where
  "runTimers decode fuel d =
     (if queue d = [] then Some d
      else case fuel of 0 \<Rightarrow> None | Suc n \<Rightarrow> runTimers decode n (processQueue decode d))"

text \<open>
  The ids and statuses of the entries of a queue, and two batches: three files that all
  decode, and a file that fails to decode with a sibling that decodes.
\<close>

definition statuses :: "(nat, 'f fileData) jsmap \<Rightarrow> (nat \<times> status) list" where
  "statuses m = map (\<lambda>(k, fd). (k, status fd)) m"

definition threeFiles :: "(nat \<times> string) list" where
  "threeFiles = [(1, ''a.flac''), (2, ''b.flac''), (3, ''c.flac'')]"

definition decodeAll :: "string decoder" where
  "decodeAll f = Some (Num 44100, rolloff)"

definition twoFiles :: "(nat \<times> string) list" where
  "twoFiles = [(1, ''broken.mp3''), (2, ''good.flac'')]"

definition decodeGood :: "string decoder" where
  "decodeGood f = (if f = ''good.flac'' then Some (Num 44100, rolloff) else None)"

text \<open>
  What is observed of a detector: the waiting files, the files in \<^verbatim>\<open>processingQueue\<close> with
  their status, the ids that have a result, and the quality tags of the cards.
\<close>

definition summary :: "'f detector \<Rightarrow> (nat \<times> status) list \<times> (nat \<times> status) list \<times> nat list \<times> (nat \<times> string) list" where
  "summary d = (statuses (queue d), statuses (processingQueue d), map fst (results d), grid d)"

text \<open>
  A queue in which no entry has a card.
\<close>

definition cardless :: "(nat, 'f fileData) jsmap \<Rightarrow> bool" where
  "cardless m = list_all (\<lambda>(k, fd). cardEl fd = None) m"

text \<open>
  A queue whose entries are stored under their own id, and a detector that is ready for a
  pass: no pass is under way, the limit is at least 1, and the queue is so keyed.
\<close>

definition keyed :: "(nat, 'f fileData) jsmap \<Rightarrow> bool" where
  "keyed m = list_all (\<lambda>(k, fd). fileId fd = k) m"

definition ready :: "'f detector \<Rightarrow> bool" where
  "ready d = (\<not> isProcessing d \<and> 1 \<le> concurrentLimit d \<and> keyed (queue d))"

section \<open>Properties of rounding\<close>

text \<open>
  Rounding is monotone, and the binary exponent brackets its argument. From the two: a
  number that is at most a negative number \<open>c\<close> of the format rounds to a number that is
  at most \<open>c\<close>; and a positive number below half the least positive double rounds to 0.
\<close>

lemma roundFloat_not_NaN: "roundFloat p emin emax x \<noteq> NaN"
  by (simp add: roundFloat_def Let_def)

lemma dround_not_NaN: "v \<noteq> NaN \<Longrightarrow> dround v \<noteq> NaN"
  by (cases v) (simp_all add: dround_def roundFloat_not_NaN)

lemma roundEven_bounds: "\<lfloor>x\<rfloor> \<le> roundEven x \<and> roundEven x \<le> \<lfloor>x\<rfloor> + 1"
  by (simp add: roundEven_def Let_def)

lemma roundEven_of_int: "roundEven (of_int n) = n"
  by (simp add: roundEven_def Let_def)

lemma roundEven_mono:
  assumes "x \<le> y"
  shows "roundEven x \<le> roundEven y"
proof (cases "\<lfloor>x\<rfloor> = \<lfloor>y\<rfloor>")
  case True
  with assms have "x - of_int \<lfloor>x\<rfloor> \<le> y - of_int \<lfloor>y\<rfloor>" by simp
  with True show ?thesis by (auto simp: roundEven_def Let_def)
next
  case False
  with assms have "\<lfloor>x\<rfloor> + 1 \<le> \<lfloor>y\<rfloor>"
    using floor_mono [of x y] by linarith
  with roundEven_bounds [of x] roundEven_bounds [of y] show ?thesis by linarith
qed

lemma two_power_le_real:
  assumes "(2::int) ^ n \<le> m"
  shows "(2::real) ^ n \<le> of_int m"
proof -
  have "(of_int ((2::int) ^ n) :: real) \<le> of_int m"
    using assms by (simp only: of_int_le_iff)
  then show ?thesis by simp
qed

lemma less_two_power_real:
  assumes "m < (2::int) ^ n"
  shows "of_int m + 1 \<le> (2::real) ^ n"
proof -
  from assms have "m + 1 \<le> 2 ^ n" by simp
  then have "(of_int (m + 1) :: real) \<le> of_int ((2::int) ^ n)"
    by (simp only: of_int_le_iff)
  then show ?thesis by simp
qed

lemma binLog_bounds:
  assumes "0 < a"
  shows "power_int (2::real) (binLog a) \<le> a \<and> a < power_int 2 (binLog a + 1)"
proof (cases "1 \<le> a")
  case True
  define m where "m = \<lfloor>a\<rfloor>"
  have m: "0 < m" using True by (simp add: m_def)
  have b: "1 \<le> bitlen m" using m by (simp add: bitlen_alt_def)
  have l: "binLog a = bitlen m - 1" using True by (simp add: binLog_def m_def)
  from bitlen_bounds [OF m] have "2 ^ nat (bitlen m - 1) \<le> m" "m < 2 ^ nat (bitlen m)" by simp_all
  then have "(2::real) ^ nat (bitlen m - 1) \<le> of_int m" "of_int m + 1 \<le> (2::real) ^ nat (bitlen m)"
    by (simp_all add: two_power_le_real less_two_power_real)
  moreover have "of_int m \<le> a" "a < of_int m + 1" unfolding m_def by linarith+
  ultimately have "(2::real) ^ nat (bitlen m - 1) \<le> a" "a < 2 ^ nat (bitlen m)"
    by linarith+
  then show ?thesis
    unfolding l using b by (simp add: power_int_def)
next
  case False
  define b where "b = 1 / a"
  define m where "m = \<lfloor>b\<rfloor>"
  define k where "k = bitlen m - 1"
  have b1: "1 < b" using False assms by (simp add: b_def)
  have m: "0 < m" using b1 by (simp add: m_def)
  have k: "0 \<le> k" using m by (simp add: k_def bitlen_alt_def)
  from bitlen_bounds [OF m] have "2 ^ nat k \<le> m" "m < 2 ^ nat (k + 1)"
    using k by (simp_all add: k_def)
  then have "(2::real) ^ nat k \<le> of_int m" "of_int m + 1 \<le> (2::real) ^ nat (k + 1)"
    by (simp_all add: two_power_le_real less_two_power_real)
  moreover have "of_int m \<le> b" "b < of_int m + 1" unfolding m_def by linarith+
  ultimately have lo: "(2::real) ^ nat k \<le> b" and hi: "b < 2 ^ nat (k + 1)" by linarith+
  have a: "a = 1 / b" using assms by (simp add: b_def)
  have hi2: "b < 2 * 2 ^ nat k" using hi k by (simp add: nat_add_distrib)
  show ?thesis
  proof (cases "a * 2 ^ nat k = 1")
    case True
    then have l: "binLog a = - k" using False by (simp add: binLog_def b_def m_def k_def Let_def)
    have e: "a = 1 / 2 ^ nat k" using True by (simp add: field_simps)
    have k0: "k \<noteq> 0" using True False by auto
    have "power_int (2::real) (- k) = a" using k k0 e by (simp add: power_int_def field_simps)
    moreover have "power_int (2::real) (- k + 1) = 2 * a"
    proof -
      from k0 obtain j where j: "nat k = Suc j" "nat (k - 1) = j" using k by (cases "nat k") auto
      have "- k + 1 \<le> 0" using k0 k by simp
      then have "power_int (2::real) (- k + 1) = inverse 2 ^ nat (k - 1)"
        by (auto simp: power_int_def)
      then show ?thesis unfolding e j by (simp add: field_simps)
    qed
    ultimately show ?thesis unfolding l using assms by simp
  next
    case F: False
    then have l: "binLog a = - k - 1" using False by (simp add: binLog_def b_def m_def k_def Let_def)
    have "b \<noteq> 2 ^ nat k"
    proof
      assume "b = 2 ^ nat k"
      then have "a * 2 ^ nat k = a * (1 / a)" by (simp add: b_def)
      also have "\<dots> = 1" using assms by simp
      finally show False using F by simp
    qed
    with lo have lo': "2 ^ nat k < b" by simp
    have p1: "power_int (2::real) (- k - 1) = 1 / (2 * 2 ^ nat k)"
      using k by (simp add: power_int_def nat_add_distrib field_simps)
    have p2: "power_int (2::real) (- k - 1 + 1) = 1 / 2 ^ nat k"
      using k by (simp add: power_int_def field_simps)
    have "1 / (2 * 2 ^ nat k) < a" unfolding a using hi2 b1 by (simp add: field_simps)
    moreover have "a < 1 / 2 ^ nat k" unfolding a using lo' b1 by (simp add: field_simps)
    ultimately show ?thesis unfolding l p1 p2 by simp
  qed
qed

lemma binExponent_ge: "emin \<le> binExponent emin a"
  by (simp add: binExponent_def)

lemma binExponent_upper:
  assumes "0 \<le> a"
  shows "a < power_int 2 (binExponent emin a + 1)"
proof (cases "a = 0")
  case True
  then show ?thesis by (simp add: zero_less_power_int)
next
  case False
  with assms have "0 < a" by simp
  then have "a < power_int 2 (binLog a + 1)" using binLog_bounds by blast
  also have "\<dots> \<le> power_int 2 (max emin (binLog a) + 1)"
    by (rule power_int_increasing) simp_all
  finally show ?thesis using False by (simp add: binExponent_def)
qed

lemma binExponent_lower:
  assumes "0 \<le> a" "emin < binExponent emin a"
  shows "power_int 2 (binExponent emin a) \<le> a"
proof -
  from assms(2) have "a \<noteq> 0" "binExponent emin a = binLog a"
    by (auto simp: binExponent_def max_def split: if_splits)
  with assms(1) binLog_bounds [of a] show ?thesis by simp
qed

lemma binExponent_mono:
  assumes "0 \<le> a" "a \<le> b"
  shows "binExponent emin a \<le> binExponent emin b"
proof (cases "emin < binExponent emin a")
  case False
  then show ?thesis using binExponent_ge [of emin a] binExponent_ge [of emin b] by linarith
next
  case True
  show ?thesis
  proof (rule ccontr)
    assume "\<not> binExponent emin a \<le> binExponent emin b"
    then have "binExponent emin b + 1 \<le> binExponent emin a" by simp
    then have "power_int (2::real) (binExponent emin b + 1) \<le> power_int 2 (binExponent emin a)"
      by (rule power_int_increasing) simp
    also have "\<dots> \<le> a" using assms(1) True by (rule binExponent_lower)
    finally have "power_int 2 (binExponent emin b + 1) \<le> b" using assms(2) by simp
    moreover have "b < power_int 2 (binExponent emin b + 1)"
      using assms by (intro binExponent_upper) simp
    ultimately show False by simp
  qed
qed

lemma roundMagnitude_above:
  assumes b: "0 < b" "b \<le> a" and rep: "roundMagnitude p emin b = b" and p: "0 < p"
  shows "b \<le> roundMagnitude p emin a"
proof -
  define ea where "ea = binExponent emin a"
  define eb where "eb = binExponent emin b"
  define qa :: real where "qa = power_int 2 (ea - int p + 1)"
  define qb :: real where "qb = power_int 2 (eb - int p + 1)"
  have qa: "0 < qa" and qb: "0 < qb" by (simp_all add: qa_def qb_def zero_less_power_int)
  have ra: "roundMagnitude p emin a = of_int (roundEven (a / qa)) * qa"
    by (simp add: roundMagnitude_def qa_def ea_def Let_def)
  have rb: "of_int (roundEven (b / qb)) * qb = b"
    using rep by (simp add: roundMagnitude_def qb_def eb_def Let_def)
  have le: "eb \<le> ea" unfolding ea_def eb_def using b by (intro binExponent_mono) simp_all
  show ?thesis
  proof (cases "eb = ea")
    case True
    then have q: "qb = qa" by (simp add: qa_def qb_def)
    have "b / qa \<le> a / qa" using b qa by (simp add: divide_right_mono)
    then have "roundEven (b / qa) \<le> roundEven (a / qa)" by (rule roundEven_mono)
    then have "(of_int (roundEven (b / qa)) :: real) * qa \<le> of_int (roundEven (a / qa)) * qa"
      using qa by simp
    with rb show ?thesis unfolding ra q by simp
  next
    case False
    with le have lt: "eb + 1 \<le> ea" "emin < ea"
      using binExponent_ge [of emin b] by (simp_all add: eb_def)
    have lo: "power_int 2 ea \<le> a"
      unfolding ea_def using b lt(2) by (intro binExponent_lower) (simp_all add: ea_def)
    have "b < power_int 2 (eb + 1)"
      unfolding eb_def using b by (intro binExponent_upper) simp
    also have "power_int (2::real) (eb + 1) \<le> power_int 2 ea"
      using lt(1) by (rule power_int_increasing) simp
    finally have bl: "b < power_int 2 ea" .
    have s: "power_int (2::real) ea = 2 ^ (p - 1) * qa"
    proof -
      have "power_int (2::real) ea = power_int 2 (int (p - 1) + (ea - int p + 1))"
        using p by (simp add: of_nat_diff)
      also have "\<dots> = power_int 2 (int (p - 1)) * power_int 2 (ea - int p + 1)"
        by (rule power_int_add) simp
      finally show ?thesis by (simp add: qa_def power_int_of_nat)
    qed
    have "of_int (2 ^ (p - 1)) = power_int (2::real) ea / qa"
      using qa by (simp add: s)
    also have "\<dots> \<le> a / qa" using lo qa by (simp add: divide_right_mono)
    finally have "roundEven (of_int (2 ^ (p - 1))) \<le> roundEven (a / qa)"
      by (rule roundEven_mono)
    then have "2 ^ (p - 1) \<le> roundEven (a / qa)" by (simp only: roundEven_of_int)
    then have "(of_int (2 ^ (p - 1)) :: real) \<le> of_int (roundEven (a / qa))"
      by (simp only: of_int_le_iff)
    then have "power_int 2 ea \<le> of_int (roundEven (a / qa)) * qa"
      unfolding s using qa by simp
    with bl show ?thesis unfolding ra by simp
  qed
qed

lemma roundFloat_notAbove:
  assumes "x \<le> c" "c < 0" "roundFloat p emin emax c = Num c" "0 < p"
  shows "notAbove (roundFloat p emin emax x) c"
proof -
  have x: "x < 0" using assms by simp
  have "roundMagnitude p emin \<bar>c\<bar> = \<bar>c\<bar>"
    using assms(2,3) by (simp add: roundFloat_def Let_def split: if_splits)
  moreover have "0 < \<bar>c\<bar>" "\<bar>c\<bar> \<le> \<bar>x\<bar>" using assms by simp_all
  ultimately have "\<bar>c\<bar> \<le> roundMagnitude p emin \<bar>x\<bar>"
    using assms(4) by (intro roundMagnitude_above)
  then have "- roundMagnitude p emin \<bar>x\<bar> \<le> c" using assms(2) by simp
  then show ?thesis
    using x by (simp add: roundFloat_def Let_def notAbove_def)
qed

lemma dround_notAbove:
  assumes "notAbove v c" "c < 0" "dround (Num c) = Num c"
  shows "notAbove (dround v) c"
proof (cases v)
  case (Num x)
  with assms(1) have "x \<le> c" by (simp add: notAbove_def)
  then show ?thesis
    unfolding Num using assms(2,3) by (simp add: dround_def roundFloat_notAbove)
qed (use assms(1) in \<open>simp_all add: notAbove_def dround_def\<close>)

lemma fround_notAbove:
  assumes "notAbove v c" "c < 0" "fround (Num c) = Num c"
  shows "notAbove (fround v) c"
proof (cases v)
  case (Num x)
  with assms(1) have "x \<le> c" by (simp add: notAbove_def)
  then show ?thesis
    unfolding Num using assms(2,3) by (simp add: fround_def roundFloat_notAbove)
qed (use assms(1) in \<open>simp_all add: notAbove_def fround_def\<close>)

lemma doubles_of_80:
  "k \<in> {1, 2, 3, 4, 5, 6, 7} \<Longrightarrow> dround (Num (- 80 * real k)) = Num (- 80 * real k)"
  by (elim insertE emptyE; hypsubst; code_simp)

lemma single_of_80: "fround (Num (- 80)) = Num (- 80)"
  by code_simp


section \<open>Properties of the quality classifier\<close>

lemma tierScore_Num:
  "tierScore (Num f) =
     Num (if 20000 \<le> f then 100
          else if 18500 \<le> f then 85 + (f - 18500) / 1500 * 15
          else if 16000 \<le> f then 60 + (f - 16000) / 2500 * 25
          else if 14000 \<le> f then 30 + (f - 14000) / 2000 * 30
          else max 10 (f / 14000 * 30))"
  by (simp add: tierScore_def goodScore_def moderateScore_def poorScore_def fakeScore_def
      js_ge_def js_sub_def js_max_def max_def)

lemma tierScore_linear:
  "tierScore (Num f) =
     Num (if 20000 \<le> f then 100
          else if 16000 \<le> f then f / 100 - 100
          else if 14000 \<le> f then 3 * f / 200 - 180
          else max 10 (3 * f / 1400))"
  by (simp add: tierScore_Num field_simps)

lemma tierScore_mono: "f \<le> g \<Longrightarrow> js_le (tierScore (Num f)) (tierScore (Num g))"
  unfolding tierScore_linear by (simp add: js_le_def js_ge_def max_def)

lemma tierScore_finite: "freq \<noteq> NaN \<Longrightarrow> \<exists>t. tierScore freq = Num t"
proof (cases freq)
  case (Num f)
  then show ?thesis by (simp only: tierScore_Num) blast
qed (simp_all add: tierScore_def js_ge_def fakeScore_def js_max_def js_inf_def)

lemma adjustScore_finite: "\<exists>s. adjustScore a (Num t) = Num s"
  by (simp add: adjustScore_def Let_def js_sub_def)

lemma clamp_round_range:
  "\<exists>k::int. js_round (js_min (Num 100) (js_max (Num 0) (Num s))) = Num (of_int k) \<and> 0 \<le> k \<and> k \<le> 100"
proof -
  let ?c = "min 100 (max 0 s)"
  have c: "js_min (Num 100) (js_max (Num 0) (Num s)) = Num ?c"
    by (simp add: js_min_def js_max_def min_def max_def)
  have "0 \<le> ?c" "?c \<le> 100" by simp_all
  then have "0 \<le> \<lfloor>?c + 1 / 2\<rfloor>" "\<lfloor>?c + 1 / 2\<rfloor> \<le> 100"
    by linarith+
  with c show ?thesis by (metis js_round.simps(1))
qed

lemma clamp_int:
  "js_min (Num 100) (js_max (Num 0) (Num (of_int r))) = Num (of_int (min 100 (max 0 r)))"
  by (simp add: js_min_def js_max_def min_def max_def)

lemma round_clamp_range:
  assumes "v \<noteq> NaN"
  shows "\<exists>k::int. js_min (Num 100) (js_max (Num 0) (js_round v)) = Num (of_int k) \<and> 0 \<le> k \<and> k \<le> 100"
proof (cases v)
  case (Num x)
  have "0 \<le> min 100 (max 0 \<lfloor>x + 1 / 2\<rfloor>)" "min 100 (max 0 \<lfloor>x + 1 / 2\<rfloor>) \<le> 100"
    by simp_all
  then show ?thesis
    unfolding Num js_round.simps clamp_int by blast
next
  case NegInf
  have "js_min (Num 100) (js_max (Num 0) (js_round NegInf)) = Num (of_int 0)"
    by (simp add: js_min_def js_max_def)
  then show ?thesis unfolding NegInf by (intro exI [of _ 0]) simp
next
  case PosInf
  have "js_min (Num 100) (js_max (Num 0) (js_round PosInf)) = Num (of_int 100)"
    by (simp add: js_min_def js_max_def)
  then show ?thesis unfolding PosInf by (intro exI [of _ 100]) simp
qed (use assms in simp)

lemma calculateConfidence_range:
  "\<exists>k::int. calculateConfidence data c = Num (of_int k) \<and> 0 \<le> k \<and> k \<le> 100"
  unfolding calculateConfidence_def Let_def
  by (rule round_clamp_range) simp

lemma evaluateQuality_score_range:
  assumes "frequency (cutoff a) \<noteq> NaN"
  shows "\<exists>k::int. qualityScore (evaluateQuality a sr) = Num (of_int k) \<and> 0 \<le> k \<and> k \<le> 100"
proof -
  obtain t where t: "tierScore (frequency (cutoff a)) = Num t"
    using tierScore_finite [OF assms] by blast
  obtain s where s: "adjustScore a (Num t) = Num s"
    using adjustScore_finite by blast
  show ?thesis
    by (simp add: evaluateQuality_def Let_def t s clamp_round_range)
qed

lemma findCutoffFrequency_not_NaN:
  assumes "length data \<noteq> 1"
  shows "frequency (findCutoffFrequency data) \<noteq> NaN"
proof -
  define b where "b = real_of_int (int (length data) - 1)"
  define l where "l = real (lastBinAbove (smoothArray data 3) (- 80))"
  have "b \<noteq> 0" using assms by (simp add: b_def)
  then have "js_div (Num l) (Num b) \<noteq> NaN" by simp
  then have d: "dround (js_div (Num l) (Num b)) \<noteq> NaN" by (rule dround_not_NaN)
  have "js_mul v (Num (44100 / 2)) \<noteq> NaN" if "v \<noteq> NaN" for v
    using that by (cases v) (simp_all add: js_inf_def)
  from this [OF d] have "dround (js_mul (dround (js_div (Num l) (Num b))) (Num (44100 / 2))) \<noteq> NaN"
    by (rule dround_not_NaN)
  moreover have "js_round v \<noteq> NaN" if "v \<noteq> NaN" for v
    using that by (cases v) simp_all
  ultimately have "js_round (dround (js_mul (dround (js_div (Num l) (Num b))) (Num (44100 / 2)))) \<noteq> NaN"
    by blast
  then show ?thesis
    by (simp add: findCutoffFrequency_def Let_def b_def l_def)
qed

lemma tier_boundaries:
  "fakeScore (Num 14000) = Num 30" "poorScore (Num 14000) = Num 30"
  "poorScore (Num 16000) = Num 60" "moderateScore (Num 16000) = Num 60"
  "moderateScore (Num 18500) = Num 85" "goodScore (Num 18500) = Num 85"
  "goodScore (Num 20000) = Num 100" "tierScore (Num 20000) = Num 100"
  by (simp_all add: tierScore_Num fakeScore_def poorScore_def moderateScore_def
      goodScore_def js_sub_def js_max_def)

text \<open>
  Claim C10. The score of the tier, before the adjustments, does not decrease when the
  cutoff frequency grows (for all frequencies from 0 up), and the formulas of adjacent
  tiers agree at every boundary: 30 at 14000 Hz, 60 at 16000 Hz, 85 at 18500 Hz and 100 at
  20000 Hz.
\<close>

theorem tier_score_monotone:
  "(0 \<le> f \<and> f \<le> g \<longrightarrow> js_le (tierScore (Num f)) (tierScore (Num g))) \<and>
   fakeScore (Num 14000) = Num 30 \<and> poorScore (Num 14000) = Num 30 \<and>
   poorScore (Num 16000) = Num 60 \<and> moderateScore (Num 16000) = Num 60 \<and>
   moderateScore (Num 18500) = Num 85 \<and> goodScore (Num 18500) = Num 85 \<and>
   goodScore (Num 20000) = Num 100 \<and> tierScore (Num 20000) = Num 100"
  using tierScore_mono [of f g] by (simp only: tier_boundaries) simp

theorem tier_score_monotone_witness:
  "(0::real) \<le> 15999 \<and> (15999::real) \<le> 16000 \<and>
   js_le (tierScore (Num 15999)) (tierScore (Num 16000)) \<and>
   tierScore (Num 15999) = Num (11997 / 200) \<and> tierScore (Num 16000) = Num 60"
  using tier_score_monotone [of 15999 16000] by (simp add: tierScore_Num)




text \<open>
  Claim C3. The quality score is an integer between 0 and 100 for every combination of
  features, provided the cutoff frequency is a number (it is for every spectrum that has
  not exactly one bin); the confidence is an integer between 0 and 100 for every spectrum
  and cutoff; and so are both for the analysis of every spectrum that has not exactly one
  bin.
\<close>

theorem scores_in_range:
  "(frequency (cutoff a) \<noteq> NaN \<longrightarrow>
      (\<exists>k::int. qualityScore (evaluateQuality a sr) = Num (of_int k) \<and> 0 \<le> k \<and> k \<le> 100)) \<and>
   (\<exists>k::int. calculateConfidence data c = Num (of_int k) \<and> 0 \<le> k \<and> k \<le> 100) \<and>
   (length data \<noteq> 1 \<longrightarrow>
      (\<exists>k::int. qualityScore (evaluateQuality (performSpectralAnalysis data) sr) = Num (of_int k)
          \<and> 0 \<le> k \<and> k \<le> 100) \<and>
      (\<exists>k::int. verdict_confidence (evaluateQuality (performSpectralAnalysis data) sr) = Num (of_int k)
          \<and> 0 \<le> k \<and> k \<le> 100))"
proof (intro conjI impI)
  assume "length data \<noteq> 1"
  then have "frequency (cutoff (performSpectralAnalysis data)) \<noteq> NaN"
    by (simp add: performSpectralAnalysis_def Let_def findCutoffFrequency_not_NaN)
  then show "\<exists>k::int. qualityScore (evaluateQuality (performSpectralAnalysis data) sr) = Num (of_int k)
          \<and> 0 \<le> k \<and> k \<le> 100"
    by (rule evaluateQuality_score_range)
  show "\<exists>k::int. verdict_confidence (evaluateQuality (performSpectralAnalysis data) sr) = Num (of_int k)
          \<and> 0 \<le> k \<and> k \<le> 100"
    by (simp add: evaluateQuality_def performSpectralAnalysis_def Let_def calculateConfidence_range)
qed (simp_all add: evaluateQuality_score_range calculateConfidence_range)

theorem scores_in_range_witness:
  "frequency (cutoff losslessArtificial) \<noteq> NaN \<and>
   qualityScore (evaluateQuality losslessArtificial (Num 44100)) = Num 85 \<and>
   length [- 90 :: real, - 90] \<noteq> 1 \<and>
   (\<exists>k::int. qualityScore (evaluateQuality (performSpectralAnalysis [- 90, - 90]) (Num 44100)) = Num (of_int k)
          \<and> 0 \<le> k \<and> k \<le> 100)"
  using scores_in_range [of losslessArtificial "Num 44100" "[- 90, - 90]" "cutoff losslessArtificial"]
  by (simp add: losslessArtificial_def evaluateQuality_def adjustScore_def tierScore_def
      js_ge_def js_gt_def js_sub_def js_min_def js_max_def Let_def)

section \<open>Dynamic range\<close>

lemma fold_index: "fold (\<lambda>i. f (xs ! i)) [0 ..< length xs] = fold f xs"
proof -
  have "fold f (map (nth xs) [0 ..< length xs]) = fold (f \<circ> nth xs) [0 ..< length xs]"
    by (rule fold_map)
  then show ?thesis by (simp add: map_nth comp_def)
qed

lemma rangeStep_split:
  "fold rangeStep xs (mx, mn) =
     (fold (\<lambda>x mx. if js_gt (Num x) mx \<and> x < 0 then Num x else mx) xs mx,
      fold (\<lambda>x mn. if js_lt (Num x) mn then Num x else mn) xs mn)"
  by (induction xs arbitrary: mx mn) (simp_all add: rangeStep_def)

lemma fold_running_max:
  "fold (\<lambda>x mx. if js_gt (Num x) mx \<and> x < 0 then Num x else mx) xs NegInf =
     (if filter (\<lambda>x. x < 0) xs = [] then NegInf else Num (Max (set (filter (\<lambda>x. x < 0) xs))))"
proof (induction xs rule: rev_induct)
  case Nil
  then show ?case by simp
next
  case (snoc x xs)
  let ?ns = "filter (\<lambda>x. x < 0) xs"
  show ?case
  proof (cases "x < 0")
    case False
    then show ?thesis using snoc.IH by simp
  next
    case True
    show ?thesis
    proof (cases "?ns = []")
      case True
      with \<open>x < 0\<close> show ?thesis using snoc.IH by (simp add: js_gt_def)
    next
      case False
      define M where "M = Max (set ?ns)"
      have "Max (insert x (set ?ns)) = max x (Max (set ?ns))"
        by (rule Max_insert) (use False in \<open>auto simp: filter_empty_conv\<close>)
      then have "Max (set (filter (\<lambda>x. x < 0) (xs @ [x]))) = max x M"
        using \<open>x < 0\<close> by (simp add: M_def)
      moreover have "fold (\<lambda>x mx. if js_gt (Num x) mx \<and> x < 0 then Num x else mx) xs NegInf = Num M"
        using snoc.IH False by (simp add: M_def)
      ultimately show ?thesis
        using \<open>x < 0\<close> by (simp add: js_gt_def max_def)
    qed
  qed
qed

lemma fold_running_min:
  "fold (\<lambda>x mn. if js_lt (Num x) mn then Num x else mn) xs PosInf =
     (if xs = [] then PosInf else Num (Min (set xs)))"
proof (induction xs rule: rev_induct)
  case Nil
  then show ?case by simp
next
  case (snoc x xs)
  show ?case
  proof (cases "xs = []")
    case True
    then show ?thesis by simp
  next
    case False
    define m where "m = Min (set xs)"
    have "Min (insert x (set xs)) = min x (Min (set xs))"
      by (rule Min_insert) (use False in simp_all)
    then have "Min (set (xs @ [x])) = min x m"
      by (simp add: m_def)
    moreover have "fold (\<lambda>x mn. if js_lt (Num x) mn then Num x else mn) xs PosInf = Num m"
      using snoc.IH False by (simp add: m_def)
    ultimately show ?thesis
      by (simp add: min_def)
  qed
qed

lemma rangeStep_fold:
  "fold rangeStep xs (NegInf, PosInf) =
     (if filter (\<lambda>x. x < 0) xs = [] then NegInf else Num (Max (set (filter (\<lambda>x. x < 0) xs))),
      if xs = [] then PosInf else Num (Min (set xs)))"
  unfolding rangeStep_split fold_running_max fold_running_min ..

lemma calculateDynamicRange_fold:
  "calculateDynamicRange data = (let (mx, mn) = fold rangeStep data (NegInf, PosInf) in js_abs (js_sub mx mn))"
  by (simp add: calculateDynamicRange_def fold_index)

lemma Max_neg_ge_Min:
  assumes "filter (\<lambda>x. x < 0) xs \<noteq> []"
  shows "Min (set xs) \<le> Max (set (filter (\<lambda>x. x < (0::real)) xs))"
proof -
  from assms obtain y where y: "y \<in> set (filter (\<lambda>x. x < 0) xs)"
    by (cases "filter (\<lambda>x. x < 0) xs") auto
  then have "y \<in> set xs" by simp
  then have "Min (set xs) \<le> y" by simp
  also have "y \<le> Max (set (filter (\<lambda>x. x < 0) xs))" using y by simp
  finally show ?thesis .
qed

text \<open>
  Claim C4 as stated fails: for the spectrum \<open>[0, 5]\<close>, with no magnitude below zero,
  the running maximum keeps its initial value \<^verbatim>\<open>-Infinity\<close>, and the result is
  \<^verbatim>\<open>Infinity\<close>, not the finite \<open>0 - 0\<close>.
\<close>

theorem dynamic_range_no_fallback:
  "calculateDynamicRange [0, 5] = PosInf \<and> dynamicRangeSpec [0, 5] = 0 \<and>
   calculateDynamicRange [0, 5] \<noteq> Num (dynamicRangeSpec [0, 5])"
  by (simp add: calculateDynamicRange_fold rangeStep_def js_gt_def js_sub_def dynamicRangeSpec_def)

text \<open>
  Claim C4, amended. For every raw spectrum with at least one magnitude below zero, the
  dynamic range is the largest magnitude below zero minus the smallest magnitude, a finite
  number that is not negative. When no magnitude is below zero there is no fallback to 0:
  the result is \<^verbatim>\<open>Infinity\<close>.
\<close>

theorem dynamic_range_value:
  "((\<exists>x \<in> set data. x < 0) \<longrightarrow>
      calculateDynamicRange data = Num (dynamicRangeSpec data) \<and> 0 \<le> dynamicRangeSpec data) \<and>
   ((\<forall>x \<in> set data. 0 \<le> x) \<longrightarrow> calculateDynamicRange data = PosInf)"
proof (intro conjI impI)
  assume neg: "\<exists>x \<in> set data. x < 0"
  then have ne: "filter (\<lambda>x. x < 0) data \<noteq> []" "data \<noteq> []"
    by (auto simp: filter_empty_conv)
  define M where "M = Max (set (filter (\<lambda>x. x < 0) data))"
  define m where "m = Min (set data)"
  have le: "m \<le> M"
    unfolding m_def M_def using Max_neg_ge_Min ne(1) by blast
  have f: "fold rangeStep data (NegInf, PosInf) = (Num M, Num m)"
    unfolding rangeStep_fold M_def m_def using ne by simp
  have s: "dynamicRangeSpec data = M - m"
    unfolding dynamicRangeSpec_def Let_def M_def m_def using ne by simp
  show "calculateDynamicRange data = Num (dynamicRangeSpec data)"
    unfolding calculateDynamicRange_fold f s using le by (simp add: js_sub_def)
  show "0 \<le> dynamicRangeSpec data"
    unfolding s using le by simp
next
  assume "\<forall>x \<in> set data. 0 \<le> x"
  then have "filter (\<lambda>x. x < 0) data = []"
    by (auto simp: filter_empty_conv)
  then show "calculateDynamicRange data = PosInf"
    by (simp add: calculateDynamicRange_fold rangeStep_fold js_sub_def)
qed

theorem dynamic_range_value_witness:
  "(\<exists>x \<in> set [- 3, 5, - 10, - 1 :: real]. x < 0) \<and>
   calculateDynamicRange [- 3, 5, - 10, - 1] = Num 9 \<and>
   list_all (\<lambda>x. 0 \<le> x) [0, 5 :: real] \<and> calculateDynamicRange [0, 5] = PosInf"
  using dynamic_range_value [of "[- 3, 5, - 10, - 1]"] dynamic_range_value [of "[0, 5]"]
  by (simp add: dynamicRangeSpec_def)

section \<open>Cutoff detection\<close>

lemma fold_sum_count:
  "fold (\<lambda>j (s, c). (dround (js_add s (Num (data ! j))), c + 1)) js (s0, c0 :: nat) =
     (fold (\<lambda>x s. dround (js_add s (Num x))) (map (nth data) js) s0, c0 + length js)"
  by (induction js arbitrary: s0 c0) simp_all

lemma window_interval:
  assumes "i < n"
  shows "filter (\<lambda>j. i \<le> j + r \<and> j \<le> i + r) [0 ..< n] = [i - r ..< Suc (min (n - 1) (i + r))]"
proof (rule sorted_distinct_set_unique)
  show "set (filter (\<lambda>j. i \<le> j + r \<and> j \<le> i + r) [0 ..< n]) = set [i - r ..< Suc (min (n - 1) (i + r))]"
    using assms by auto
  show "sorted (filter (\<lambda>j. i \<le> j + r \<and> j \<le> i + r) [0 ..< n])"
    by (simp add: sorted_wrt_filter)
  show "distinct (filter (\<lambda>j. i \<le> j + r \<and> j \<le> i + r) [0 ..< n])"
    by simp
  show "sorted [i - r ..< Suc (min (n - 1) (i + r))]"
    by (rule sorted_upt)
  show "distinct [i - r ..< Suc (min (n - 1) (i + r))]"
    by (rule distinct_upt)
qed

lemma smoothAt_storedAverage:
  assumes "i < length data"
  shows "smoothAt data r i = storedAverage data r i"
proof -
  have lo: "(if r \<le> i then i - r else 0) = i - r" by simp
  show ?thesis
    unfolding smoothAt_def storedAverage_def Let_def lo window_interval [OF assms] fold_sum_count
    by simp
qed

lemma length_smoothArray: "length (smoothArray data r) = length data"
  by (simp add: smoothArray_def)

lemma nth_smoothArray: "i < length data \<Longrightarrow> smoothArray data r ! i = storedAverage data r i"
  by (simp add: smoothArray_def smoothAt_storedAverage)

lemma lastBin_invariant:
  fixes P :: "nat \<Rightarrow> bool"
  defines "step \<equiv> (\<lambda>i lastBin. if P i then i else lastBin)"
  shows "((\<forall>i<k. \<not> P i) \<longrightarrow> fold step [0 ..< k] 0 = 0) \<and>
         ((\<exists>i<k. P i) \<longrightarrow>
            fold step [0 ..< k] 0 < k \<and> P (fold step [0 ..< k] 0) \<and>
            (\<forall>j<k. P j \<longrightarrow> j \<le> fold step [0 ..< k] 0))"
proof (induction k)
  case 0
  then show ?case by simp
next
  case (Suc k)
  have unroll: "fold step [0 ..< Suc k] 0 = step k (fold step [0 ..< k] 0)"
    by simp
  show ?case
  proof (cases "P k")
    case True
    then have "fold step [0 ..< Suc k] 0 = k"
      unfolding unroll by (simp add: step_def)
    with True show ?thesis by (auto simp: less_Suc_eq)
  next
    case False
    then have "fold step [0 ..< Suc k] 0 = fold step [0 ..< k] 0"
      unfolding unroll by (simp add: step_def)
    with False Suc.IH show ?thesis
      by (auto simp: less_Suc_eq)
  qed
qed

lemma bin_findCutoffFrequency:
  "bin (findCutoffFrequency data) = lastBinAbove (smoothArray data 3) (- 80)"
  by (simp add: findCutoffFrequency_def Let_def)

lemma bin_fold:
  "bin (findCutoffFrequency data) =
     fold (\<lambda>i lastBin. if i < length data \<and> js_gt (storedAverage data 3 i) (Num (- 80)) then i else lastBin)
       [0 ..< length data] 0"
proof -
  have "fold (\<lambda>i lastBin. if js_gt (smoothArray data 3 ! i) (Num (- 80)) then i else lastBin) js b =
     fold (\<lambda>i lastBin. if i < length data \<and> js_gt (storedAverage data 3 i) (Num (- 80)) then i else lastBin) js b"
    if "set js \<subseteq> {..< length data}" for js b
    using that by (induction js arbitrary: b) (simp_all add: nth_smoothArray)
  moreover have "set [0 ..< length data] \<subseteq> {..< length data}" by auto
  ultimately show ?thesis
    unfolding bin_findCutoffFrequency lastBinAbove_def length_smoothArray by blast
qed

lemma cutoff_bin_some:
  assumes "\<exists>i<length data. js_gt (storedAverage data 3 i) (Num (- 80))"
  shows "bin (findCutoffFrequency data) < length data \<and>
      js_gt (storedAverage data 3 (bin (findCutoffFrequency data))) (Num (- 80)) \<and>
      (\<forall>j<length data. js_gt (storedAverage data 3 j) (Num (- 80)) \<longrightarrow> j \<le> bin (findCutoffFrequency data))"
  using lastBin_invariant [where k = "length data"
      and P = "\<lambda>i. i < length data \<and> js_gt (storedAverage data 3 i) (Num (- 80))"] assms
  unfolding bin_fold by blast

lemma cutoff_bin_none:
  assumes "\<forall>i<length data. \<not> js_gt (storedAverage data 3 i) (Num (- 80))"
  shows "bin (findCutoffFrequency data) = 0"
  using lastBin_invariant [where k = "length data"
      and P = "\<lambda>i. i < length data \<and> js_gt (storedAverage data 3 i) (Num (- 80))"] assms
  unfolding bin_fold by blast

lemma cutoff_bin_unique:
  assumes "b < length data" "js_gt (storedAverage data 3 b) (Num (- 80))"
    and "\<forall>j<length data. b < j \<longrightarrow> \<not> js_gt (storedAverage data 3 j) (Num (- 80))"
  shows "bin (findCutoffFrequency data) = b"
proof -
  from assms(1,2) have "\<exists>i<length data. js_gt (storedAverage data 3 i) (Num (- 80))" by blast
  from cutoff_bin_some [OF this] assms show ?thesis
    by (metis le_neq_implies_less)
qed

lemma sum_notAbove:
  assumes "notAbove s (- 80 * real k)" "\<forall>x \<in> set xs. x \<le> - 80" "k + length xs \<le> 7"
  shows "notAbove (fold (\<lambda>x s. dround (js_add s (Num x))) xs s) (- 80 * real (k + length xs))"
  using assms
proof (induction xs arbitrary: s k)
  case Nil
  then show ?case by simp
next
  case (Cons x xs)
  have x: "x \<le> - 80" using Cons.prems(2) by simp
  have k: "Suc k \<in> {1, 2, 3, 4, 5, 6, 7}" using Cons.prems(3) by auto
  have "notAbove (js_add s (Num x)) (- 80 * real (Suc k))"
    using Cons.prems(1) x by (cases s) (simp_all add: notAbove_def algebra_simps)
  then have "notAbove (dround (js_add s (Num x))) (- 80 * real (Suc k))"
    by (rule dround_notAbove) (use doubles_of_80 [OF k] in simp_all)
  from Cons.IH [OF this] Cons.prems(2,3) show ?case by simp
qed

lemma storedAverage_notAbove:
  assumes i: "i < length data"
    and w: "\<forall>j<length data. i \<le> j + 3 \<and> j \<le> i + 3 \<longrightarrow> data ! j \<le> - 80"
  shows "\<not> js_gt (storedAverage data 3 i) (Num (- 80))"
proof -
  define window where "window = filter (\<lambda>j. i \<le> j + 3 \<and> j \<le> i + 3) [0 ..< length data]"
  define sum where "sum = fold (\<lambda>x s. dround (js_add s (Num x))) (map (nth data) window) (Num 0)"
  have "i \<in> set window" using i by (simp add: window_def)
  then have pos: "0 < length window" by (rule length_pos_if_in_set)
  have "window = [i - 3 ..< Suc (min (length data - 1) (i + 3))]"
    unfolding window_def using i by (rule window_interval)
  then have "length window = Suc (min (length data - 1) (i + 3)) - (i - 3)"
    by (simp only: length_upt)
  then have len: "length window \<le> 7" by linarith
  have "\<forall>x \<in> set (map (nth data) window). x \<le> - 80"
    using w by (auto simp: window_def)
  moreover have "notAbove (Num 0) (- 80 * real 0)" by (simp add: notAbove_def)
  ultimately have "notAbove sum (- 80 * real (0 + length (map (nth data) window)))"
    unfolding sum_def using len by (intro sum_notAbove) simp_all
  then have s: "notAbove sum (- 80 * real (length window))" by simp
  have "notAbove (js_div sum (Num (real (length window)))) (- 80)"
    using s pos by (cases sum) (simp_all add: notAbove_def js_inf_def field_simps)
  then have "notAbove (dround (js_div sum (Num (real (length window))))) (- 80)"
    by (rule dround_notAbove) (use doubles_of_80 [of 1] in simp_all)
  then have "notAbove (fround (dround (js_div sum (Num (real (length window)))))) (- 80)"
    by (rule fround_notAbove) (simp_all add: single_of_80)
  then have "notAbove (storedAverage data 3 i) (- 80)"
    by (simp add: storedAverage_def Let_def window_def sum_def)
  then show ?thesis
    by (cases "storedAverage data 3 i") (simp_all add: notAbove_def js_gt_def)
qed

lemma frequency_of_bin_0:
  assumes "bin (findCutoffFrequency data) = 0" "length data \<noteq> 1"
  shows "frequency (findCutoffFrequency data) = Num 0"
proof -
  define d where "d = real_of_int (int (length data) - 1)"
  have z: "lastBinAbove (smoothArray data 3) (- 80) = 0"
    using assms(1) by (simp add: bin_findCutoffFrequency)
  have "d \<noteq> 0" using assms(2) by (simp add: d_def)
  then have 1: "js_div (Num (real 0)) (Num d) = Num 0" by simp
  have 2: "dround (Num 0) = Num 0" by (simp add: dround_def roundFloat_def)
  have 3: "js_mul (Num 0) (Num (44100 / 2)) = Num 0" by simp
  have "js_round (dround (js_mul (dround (js_div (Num (real 0)) (Num d))) (Num (44100 / 2)))) = Num 0"
    unfolding 1 2 3 by simp
  then show ?thesis
    unfolding findCutoffFrequency_def Let_def z d_def by (simp only: cutoff_info.select_convs)
qed

lemma cutoff_all_below:
  assumes "\<forall>x \<in> set data. x < - 80" "length data \<noteq> 1"
  shows "bin (findCutoffFrequency data) = 0 \<and> frequency (findCutoffFrequency data) = Num 0"
proof -
  have "\<not> js_gt (storedAverage data 3 i) (Num (- 80))" if "i < length data" for i
    using that assms(1) by (intro storedAverage_notAbove) (auto simp: less_imp_le)
  then have "bin (findCutoffFrequency data) = 0"
    using cutoff_bin_none by blast
  with frequency_of_bin_0 [OF this assms(2)] show ?thesis by simp
qed

lemma nearThreshold_windows:
  "storedAverage nearThreshold 3 7 = Num (- 80)" "storedAverage nearThreshold 3 8 = Num (- 80)"
  "storedAverage nearThreshold 3 9 = Num (- 80)" "storedAverage nearThreshold 3 10 = Num (- 80)"
  "storedAverage nearThreshold 3 11 = Num (- 80)" "storedAverage nearThreshold 3 12 = Num (- 80)"
  "storedAverage nearThreshold 3 13 = Num (- 80)"
  by code_simp+

lemma nearThreshold_stored:
  assumes "i < length nearThreshold"
  shows "\<not> js_gt (storedAverage nearThreshold 3 i) (Num (- 80))"
proof (cases "i \<in> {7, 8, 9, 10, 11, 12, 13}")
  case True
  then show ?thesis
    by (elim insertE emptyE) (simp_all add: nearThreshold_windows js_gt_def)
next
  case False
  then have f: "i + 3 < 10 \<or> 10 + 3 < i" by auto
  have "nearThreshold ! j \<le> - 80" if "j < length nearThreshold" "j \<noteq> 10" for j
    using that by (simp add: nearThreshold_def nth_append)
  with assms f show ?thesis
    by (intro storedAverage_notAbove) auto
qed

lemma dipSpectrum_stored:
  "js_gt (storedAverage dipSpectrum 3 5) (Num (- 80))"
  by code_simp

lemma dipSpectrum_bin: "bin (findCutoffFrequency dipSpectrum) = 5"
proof (rule cutoff_bin_unique)
  show "5 < length dipSpectrum" by (simp add: dipSpectrum_def)
  show "js_gt (storedAverage dipSpectrum 3 5) (Num (- 80))" by (rule dipSpectrum_stored)
  show "\<forall>j<length dipSpectrum. 5 < j \<longrightarrow> \<not> js_gt (storedAverage dipSpectrum 3 j) (Num (- 80))"
  proof (intro allI impI)
    fix j assume j: "j < length dipSpectrum" "5 < j"
    have "dipSpectrum ! k \<le> - 80" if "k < length dipSpectrum" "3 \<le> k" for k
    proof -
      from that have "k - 3 < 7" by (simp add: dipSpectrum_def)
      moreover have "dipSpectrum ! k = replicate 7 (- 90) ! (k - 3)"
        using that by (simp add: dipSpectrum_def numeral_eq_Suc nth_Cons')
      ultimately show ?thesis by simp
    qed
    with j show "\<not> js_gt (storedAverage dipSpectrum 3 j) (Num (- 80))"
      by (intro storedAverage_notAbove) auto
  qed
qed

text \<open>
  Claim C1 as stated fails on the spectrum \<open>nearThreshold\<close>, whose bins are all numbers of
  single precision. The moving average of radius 3 at bin 13 is \<open>-80 + 2\<^sup>-\<^sup>1\<^sup>7 / 7\<close>, above
  -80 dB, and no bin after 13 has an average above -80 dB, so the claim gives cutoff bin
  13. The code stores the average in a \<^verbatim>\<open>Float32Array\<close>, where it is rounded to -80, which
  is not above the threshold; the same holds at every bin, and the cutoff bin is 0.
\<close>

theorem rounded_average_misses_bin:
  "movingAverage nearThreshold 3 13 = - 80 + 1 / 917504 \<and>
   movingAverage nearThreshold 3 13 > - 80 \<and>
   list_all (\<lambda>i. \<not> movingAverage nearThreshold 3 i > - 80) [14 ..< length nearThreshold] \<and>
   storedAverage nearThreshold 3 13 = Num (- 80) \<and>
   bin (findCutoffFrequency nearThreshold) = 0 \<and>
   frequency (findCutoffFrequency nearThreshold) = Num 0"
proof -
  have m: "movingAverage nearThreshold 3 13 = - 80 + 1 / 917504"
    by code_simp
  have l: "list_all (\<lambda>i. \<not> movingAverage nearThreshold 3 i > - 80) [14 ..< length nearThreshold]"
    by code_simp
  have b: "bin (findCutoffFrequency nearThreshold) = 0"
    using nearThreshold_stored by (intro cutoff_bin_none) blast
  have "length nearThreshold \<noteq> 1" by (simp add: nearThreshold_def)
  with b have "frequency (findCutoffFrequency nearThreshold) = Num 0"
    by (rule frequency_of_bin_0)
  with m l b show ?thesis by (simp add: nearThreshold_windows)
qed

text \<open>
  Claim C1, amended. The smoothed spectrum holds, for every bin, the moving average of
  radius 3 as it is stored: summed and divided in double precision, then rounded to single
  precision. If some stored average exceeds -80 dB, the cutoff bin is the highest bin
  whose stored average does; if none does, the cutoff bin is 0. When every bin of the raw
  spectrum is below -80 dB, no stored average exceeds -80 dB, the cutoff bin is 0 and the
  cutoff frequency is 0 Hz; the frequency is \<^verbatim>\<open>0 / 0\<close> for a spectrum of exactly one bin,
  which no analyser produces (the spectrum has half the transform size, at least 16 bins).
\<close>

theorem cutoff_bin_highest_stored:
  "length (smoothArray data 3) = length data \<and>
   (\<forall>i<length data. smoothArray data 3 ! i = storedAverage data 3 i) \<and>
   ((\<exists>i<length data. js_gt (storedAverage data 3 i) (Num (- 80))) \<longrightarrow>
      bin (findCutoffFrequency data) < length data \<and>
      js_gt (storedAverage data 3 (bin (findCutoffFrequency data))) (Num (- 80)) \<and>
      (\<forall>j<length data. js_gt (storedAverage data 3 j) (Num (- 80)) \<longrightarrow> j \<le> bin (findCutoffFrequency data))) \<and>
   ((\<forall>i<length data. \<not> js_gt (storedAverage data 3 i) (Num (- 80))) \<longrightarrow>
      bin (findCutoffFrequency data) = 0) \<and>
   ((\<forall>x \<in> set data. x < - 80) \<and> length data \<noteq> 1 \<longrightarrow>
      bin (findCutoffFrequency data) = 0 \<and> frequency (findCutoffFrequency data) = Num 0)"
  using cutoff_bin_some [of data] cutoff_bin_none [of data] cutoff_all_below [of data]
    length_smoothArray [of data 3] nth_smoothArray [of _ data 3]
  by blast

theorem cutoff_bin_highest_stored_witness:
  "(\<exists>i<length dipSpectrum. js_gt (storedAverage dipSpectrum 3 i) (Num (- 80))) \<and>
   bin (findCutoffFrequency dipSpectrum) = 5 \<and>
   js_gt (storedAverage dipSpectrum 3 5) (Num (- 80)) \<and>
   list_all (\<lambda>x. x < - 80) [- 90, - 90 :: real] \<and> length [- 90, - 90 :: real] \<noteq> 1 \<and>
   bin (findCutoffFrequency [- 90, - 90]) = 0 \<and> frequency (findCutoffFrequency [- 90, - 90]) = Num 0"
proof -
  have "5 < length dipSpectrum"
    by (simp add: dipSpectrum_def)
  with dipSpectrum_stored
  have h: "\<exists>i<length dipSpectrum. js_gt (storedAverage dipSpectrum 3 i) (Num (- 80))"
    by blast
  have q: "(\<forall>x \<in> set [- 90, - 90 :: real]. x < - 80) \<and> length [- 90, - 90 :: real] \<noteq> 1"
    by simp
  from cutoff_bin_highest_stored [of dipSpectrum] h
  have "js_gt (storedAverage dipSpectrum 3 (bin (findCutoffFrequency dipSpectrum))) (Num (- 80))"
    by blast
  moreover from cutoff_bin_highest_stored [of "[- 90, - 90]"] q
  have "bin (findCutoffFrequency [- 90, - 90]) = 0 \<and> frequency (findCutoffFrequency [- 90, - 90]) = Num 0"
    by blast
  ultimately show ?thesis
    using h q unfolding dipSpectrum_bin list_all_iff by blast
qed

section \<open>Artifact detector\<close>

lemma slope_fold_telescope:
  "fold (\<lambda>i s. s + (data ! (c + i) - data ! (c + i - 1))) [1 ..< Suc k] (s0 :: real) =
     s0 + (data ! (c + k) - data ! c)"
  by (induction k) simp_all

lemma detectArtificialCutoff_closed:
  "detectArtificialCutoff data cutoffBin =
     (let window = min 50 (int (length data) - int cutoffBin - 1)
      in 10 \<le> window \<and>
         (data ! (cutoffBin + nat window - 1) - data ! cutoffBin) / real_of_int window < - 3)"
proof (cases "min 50 (int (length data) - int cutoffBin - 1) < 10")
  case True
  then have "\<not> 10 \<le> min 50 (int (length data) - int cutoffBin - 1)" by simp
  with True show ?thesis unfolding detectArtificialCutoff_def Let_def by (simp only: if_True simp_thms)
next
  case False
  define w where "w = min 50 (int (length data) - int cutoffBin - 1)"
  obtain k where k: "nat w = Suc k"
    using False unfolding w_def by (cases "nat (min 50 (int (length data) - int cutoffBin - 1))") auto
  have "fold (\<lambda>i s. s + (data ! (cutoffBin + i) - data ! (cutoffBin + i - 1))) [1 ..< nat w] (0 :: real)
      = data ! (cutoffBin + nat w - 1) - data ! cutoffBin"
    unfolding k using slope_fold_telescope [of data cutoffBin k 0] by simp
  then show ?thesis
    using False unfolding detectArtificialCutoff_def Let_def w_def [symmetric] by simp
qed

lemma detectArtificialCutoff_few_bins:
  "length data - Suc cutoffBin < 10 \<Longrightarrow> \<not> detectArtificialCutoff data cutoffBin"
  by (simp add: detectArtificialCutoff_def Let_def)

text \<open>
  On a spectrum that falls by the same step \<open>s\<close> at each of the \<open>w\<close> bins after the
  cutoff bin, the test as specified compares \<open>s\<close> with -3, and the code compares
  \<open>s * (w - 1) / w\<close> with -3: a rolloff between -3 and \<open>-3 * w / (w - 1)\<close> dB per bin is
  not flagged.
\<close>

lemma linear_rolloff_verdict:
  assumes w: "w = min 50 (length data - Suc cutoffBin)" "10 \<le> w"
    and lin: "\<forall>i \<le> w. data ! (cutoffBin + i) = data ! cutoffBin + s * real i"
  shows "detectArtificialCutoff data cutoffBin = (s * (real w - 1) / real w < - 3)"
    and "artificialCutoffSpec data cutoffBin = (s < - 3)"
proof -
  have iw: "min 50 (int (length data) - int cutoffBin - 1) = int w"
    using w by auto
  have "w - 1 \<le> w" by simp
  then have "data ! (cutoffBin + (w - 1)) = data ! cutoffBin + s * real (w - 1)"
    using lin by blast
  moreover have "cutoffBin + w - 1 = cutoffBin + (w - 1)"
    using w(2) by simp
  ultimately have "data ! (cutoffBin + w - 1) = data ! cutoffBin + s * real (w - 1)"
    by simp
  then show "detectArtificialCutoff data cutoffBin = (s * (real w - 1) / real w < - 3)"
    unfolding detectArtificialCutoff_closed Let_def iw using w(2) by (simp add: of_nat_diff)
  have "map (\<lambda>k. data ! k - data ! (k - 1)) [Suc cutoffBin ..< Suc (cutoffBin + w)] = replicate w s"
  proof (rule nth_equalityI)
    show "length (map (\<lambda>k. data ! k - data ! (k - 1)) [Suc cutoffBin ..< Suc (cutoffBin + w)]) = length (replicate w s)"
      by (simp del: upt_Suc)
    fix i assume "i < length (map (\<lambda>k. data ! k - data ! (k - 1)) [Suc cutoffBin ..< Suc (cutoffBin + w)])"
    then have i: "i < w" by (simp del: upt_Suc)
    then have "Suc i \<le> w" "i \<le> w" by simp_all
    then have "data ! (cutoffBin + Suc i) = data ! cutoffBin + s * real (Suc i)"
      "data ! (cutoffBin + i) = data ! cutoffBin + s * real i"
      using lin by blast+
    then have "data ! (Suc cutoffBin + i) - data ! (Suc cutoffBin + i - 1) = s"
      by (simp add: algebra_simps)
    with i show "map (\<lambda>k. data ! k - data ! (k - 1)) [Suc cutoffBin ..< Suc (cutoffBin + w)] ! i = replicate w s ! i"
      by (simp del: upt_Suc)
  qed
  then have "averageSlopeAfter data cutoffBin w = s"
    unfolding averageSlopeAfter_def using w(2) by (simp add: sum_list_replicate)
  moreover have "\<not> length data - Suc cutoffBin < 10"
    using w by simp
  ultimately show "artificialCutoffSpec data cutoffBin = (s < - 3)"
    unfolding artificialCutoffSpec_def Let_def w(1) [symmetric] by simp
qed

lemma rolloff_windows:
  "js_gt (storedAverage rolloff 3 3) (Num (- 80))"
  "\<not> js_gt (storedAverage rolloff 3 4) (Num (- 80))"
  "\<not> js_gt (storedAverage rolloff 3 5) (Num (- 80))"
  "\<not> js_gt (storedAverage rolloff 3 6) (Num (- 80))"
  by code_simp+

lemma rolloff_bin: "bin (findCutoffFrequency rolloff) = 3"
proof (rule cutoff_bin_unique)
  show "3 < length rolloff" by (simp add: rolloff_def)
  show "js_gt (storedAverage rolloff 3 3) (Num (- 80))" by (rule rolloff_windows)
  show "\<forall>j<length rolloff. 3 < j \<longrightarrow> \<not> js_gt (storedAverage rolloff 3 j) (Num (- 80))"
  proof (intro allI impI)
    fix j assume j: "j < length rolloff" "3 < j"
    show "\<not> js_gt (storedAverage rolloff 3 j) (Num (- 80))"
    proof (cases "j \<in> {4, 5, 6}")
      case True
      then show ?thesis by (elim insertE emptyE) (simp_all add: rolloff_windows)
    next
      case False
      with j have 7: "7 \<le> j" by auto
      have "rolloff ! k \<le> - 80" if "k < length rolloff" "4 \<le> k" for k
        using that by (simp add: rolloff_def)
      with j 7 show ?thesis
        by (intro storedAverage_notAbove) auto
    qed
  qed
qed

text \<open>
  Claim C5 on the spectrum \<open>rolloff\<close>. Its cutoff bin is 3 and 12 bins follow it. Every
  one of the 12 steps after the cutoff bin is -3.1 dB, so the average slope is -3.1 dB
  per bin, steeper than -3, and the test as specified flags the cutoff. The loop of
  \<^verbatim>\<open>detectArtificialCutoff\<close> adds only the first 11 steps and divides by 12, which
  gives about -2.84, and the cutoff is not flagged.
\<close>

theorem slope_average_off_by_one:
  "bin (findCutoffFrequency rolloff) = 3 \<and>
   length rolloff - Suc 3 = 12 \<and>
   map (\<lambda>k. rolloff ! k - rolloff ! (k - 1)) [Suc 3 ..< Suc (3 + 12)] = replicate 12 (- 31 / 10) \<and>
   averageSlopeAfter rolloff 3 12 = - 31 / 10 \<and>
   artificialCutoffSpec rolloff 3 \<and>
   \<not> detectArtificialCutoff rolloff 3 \<and>
   \<not> isArtificial (findCutoffFrequency rolloff)"
proof -
  have "isArtificial (findCutoffFrequency rolloff) =
      detectArtificialCutoff rolloff (bin (findCutoffFrequency rolloff))"
    by (simp add: findCutoffFrequency_def Let_def)
  moreover have "length rolloff - Suc 3 = 12 \<and>
   map (\<lambda>k. rolloff ! k - rolloff ! (k - 1)) [Suc 3 ..< Suc (3 + 12)] = replicate 12 (- 31 / 10) \<and>
   averageSlopeAfter rolloff 3 12 = - 31 / 10 \<and>
   artificialCutoffSpec rolloff 3 \<and>
   \<not> detectArtificialCutoff rolloff 3"
    by code_simp
  ultimately show ?thesis
    by (simp only: rolloff_bin simp_thms)
qed

section \<open>Spectral flatness\<close>













section \<open>Peak finding\<close>

lemma isPeakScan_all:
  "isPeakScan data i js = (\<forall>j \<in> set js. data ! (i - j) < data ! i \<and> data ! (i + j) < data ! i)"
  by (induction js) (auto simp: not_le)

lemma fold_collect:
  "fold (\<lambda>i ps. if P i then ps @ [g i] else ps) xs acc = acc @ map g (filter P xs)"
  by (induction xs arbitrary: acc) simp_all

lemma interior_filter:
  "filter (\<lambda>i. 5 \<le> i \<and> i + 5 < n \<and> Q i) [0 ..< n] = filter Q [5 ..< n - 5]"
proof (rule sorted_distinct_set_unique)
  show "set (filter (\<lambda>i. 5 \<le> i \<and> i + 5 < n \<and> Q i) [0 ..< n]) = set (filter Q [5 ..< n - 5])"
    by auto
qed (simp_all add: sorted_wrt_filter)

lemma interior_neighbours:
  assumes "5 \<le> i" "i + 5 < length data"
  shows "list_all (\<lambda>k. data ! k < data ! i)
           (filter (\<lambda>k. k \<noteq> i \<and> i \<le> k + 5 \<and> k \<le> i + 5) [0 ..< length data])
         = (\<forall>j \<in> set [1 ..< Suc 5]. data ! (i - j) < data ! i \<and> data ! (i + j) < data ! i)"
proof
  assume l: "list_all (\<lambda>k. data ! k < data ! i)
           (filter (\<lambda>k. k \<noteq> i \<and> i \<le> k + 5 \<and> k \<le> i + 5) [0 ..< length data])"
  show "\<forall>j \<in> set [1 ..< Suc 5]. data ! (i - j) < data ! i \<and> data ! (i + j) < data ! i"
  proof
    fix j assume "j \<in> set [1 ..< Suc 5]"
    then have j: "1 \<le> j" "j \<le> 5" by auto
    have "i - j \<in> set (filter (\<lambda>k. k \<noteq> i \<and> i \<le> k + 5 \<and> k \<le> i + 5) [0 ..< length data])"
      using j assms by auto
    moreover have "i + j \<in> set (filter (\<lambda>k. k \<noteq> i \<and> i \<le> k + 5 \<and> k \<le> i + 5) [0 ..< length data])"
      using j assms by auto
    ultimately show "data ! (i - j) < data ! i \<and> data ! (i + j) < data ! i"
      using l unfolding list_all_iff by blast
  qed
next
  assume a: "\<forall>j \<in> set [1 ..< Suc 5]. data ! (i - j) < data ! i \<and> data ! (i + j) < data ! i"
  show "list_all (\<lambda>k. data ! k < data ! i)
           (filter (\<lambda>k. k \<noteq> i \<and> i \<le> k + 5 \<and> k \<le> i + 5) [0 ..< length data])"
    unfolding list_all_iff
  proof
    fix k assume "k \<in> set (filter (\<lambda>k. k \<noteq> i \<and> i \<le> k + 5 \<and> k \<le> i + 5) [0 ..< length data])"
    then have k: "k \<noteq> i" "i \<le> k + 5" "k \<le> i + 5" by auto
    show "data ! k < data ! i"
    proof (cases "k < i")
      case True
      then have "i - k \<in> set [1 ..< Suc 5]" "i - (i - k) = k" using k by auto
      with a show ?thesis by metis
    next
      case False
      then have "k - i \<in> set [1 ..< Suc 5]" "i + (k - i) = k" using k by auto
      with a show ?thesis by metis
    qed
  qed
qed

lemma findSpectralPeaks_filter:
  "findSpectralPeaks data =
     take 10 (map (mkPeak data) (filter (\<lambda>i. hasFullWindow data i \<and> isLocalPeak data i) [0 ..< length data]))"
proof -
  have "filter (\<lambda>i. hasFullWindow data i \<and> isLocalPeak data i) [0 ..< length data]
      = filter (isLocalPeak data) [5 ..< length data - 5]"
    unfolding hasFullWindow_def using interior_filter [of "length data" "isLocalPeak data"]
    by (simp add: conj_assoc)
  also have "\<dots> = filter (\<lambda>i. isPeakScan data i [1 ..< Suc 5] \<and> data ! i > - 70) [5 ..< length data - 5]"
  proof (rule filter_cong [OF refl])
    fix i assume "i \<in> set [5 ..< length data - 5]"
    then have "5 \<le> i" "i + 5 < length data" by auto
    then show "isLocalPeak data i = (isPeakScan data i [1 ..< Suc 5] \<and> data ! i > - 70)"
      unfolding isLocalPeak_def isPeakScan_all by (simp only: interior_neighbours)
  qed
  finally have eq: "filter (\<lambda>i. hasFullWindow data i \<and> isLocalPeak data i) [0 ..< length data]
      = filter (\<lambda>i. isPeakScan data i [1 ..< Suc 5] \<and> data ! i > - 70) [5 ..< length data - 5]" .
  show ?thesis
    unfolding findSpectralPeaks_def Let_def fold_collect eq by (simp only: append_Nil)
qed

text \<open>
  Claim C6 as stated fails: in \<open>edgePeak\<close>, bin 4 exceeds every bin within 5 bins of it on
  both sides (bins 0 to 3 and 5 to 9) and exceeds -70 dB, but peak finding returns no
  peak, because its loop starts at bin 5.
\<close>

theorem edge_peak_not_found:
  "map peak_bin (findSpectralPeaks edgePeak) = [] \<and>
   take 10 (filter (isLocalPeak edgePeak) [0 ..< length edgePeak]) = [4]"
  by code_simp

text \<open>
  Claim C6, amended. Peak finding returns exactly the bins that have five bins of the
  spectrum on each side (\<open>5 \<le> i\<close> and \<open>i + 5 < N\<close>), strictly exceed every bin within 5
  bins on both sides and exceed -70 dB, in ascending order of bin, cut to the first 10
  (not chosen by magnitude); each entry carries the magnitude of its bin.
\<close>

theorem peaks_first_ten:
  "map peak_bin (findSpectralPeaks data) =
     take 10 (filter (\<lambda>i. hasFullWindow data i \<and> isLocalPeak data i) [0 ..< length data]) \<and>
   (\<forall>p \<in> set (findSpectralPeaks data). magnitude p = data ! peak_bin p) \<and>
   (hasFullWindow data i \<longrightarrow>
      isLocalPeak data i =
        ((\<forall>k<length data. k \<noteq> i \<and> i \<le> k + 5 \<and> k \<le> i + 5 \<longrightarrow> data ! k < data ! i) \<and> data ! i > - 70))"
proof (intro conjI ballI impI)
  show "map peak_bin (findSpectralPeaks data) =
     take 10 (filter (\<lambda>i. hasFullWindow data i \<and> isLocalPeak data i) [0 ..< length data])"
    unfolding findSpectralPeaks_filter by (simp add: take_map comp_def mkPeak_def)
  show "magnitude p = data ! peak_bin p" if "p \<in> set (findSpectralPeaks data)" for p
  proof -
    from that have "p \<in> set (map (mkPeak data) (filter (\<lambda>i. hasFullWindow data i \<and> isLocalPeak data i) [0 ..< length data]))"
      unfolding findSpectralPeaks_filter by (rule in_set_takeD)
    then show ?thesis by (auto simp: mkPeak_def)
  qed
  show "isLocalPeak data i =
        ((\<forall>k<length data. k \<noteq> i \<and> i \<le> k + 5 \<and> k \<le> i + 5 \<longrightarrow> data ! k < data ! i) \<and> data ! i > - 70)"
    unfolding isLocalPeak_def list_all_iff by auto
qed

theorem peaks_first_ten_witness:
  "hasFullWindow twinPeaks 10 \<and> isLocalPeak twinPeaks 10 \<and> isLocalPeak twinPeaks 4 \<and>
   \<not> hasFullWindow twinPeaks 4 \<and>
   map peak_bin (findSpectralPeaks twinPeaks) = [10] \<and>
   map magnitude (findSpectralPeaks twinPeaks) = [- 30]"
proof -
  have e: "take 10 (filter (\<lambda>i. hasFullWindow twinPeaks i \<and> isLocalPeak twinPeaks i) [0 ..< length twinPeaks]) = [10]"
    by code_simp
  have h: "hasFullWindow twinPeaks 10 \<and> isLocalPeak twinPeaks 10 \<and> isLocalPeak twinPeaks 4 \<and>
      \<not> hasFullWindow twinPeaks 4"
    by code_simp
  have v: "twinPeaks ! 10 = - 30" by code_simp
  from peaks_first_ten [of twinPeaks 10]
  have b: "map peak_bin (findSpectralPeaks twinPeaks) = [10]"
    and m: "\<forall>p \<in> set (findSpectralPeaks twinPeaks). magnitude p = twinPeaks ! peak_bin p"
    unfolding e by blast+
  from b obtain p where p: "findSpectralPeaks twinPeaks = [p]" "peak_bin p = 10"
    by (auto simp: map_eq_Cons_conv)
  with m v have "map magnitude (findSpectralPeaks twinPeaks) = [- 30]"
    by simp
  with h b show ?thesis by blast
qed

section \<open>Properties of the batch scheduler\<close>

lemmas scheduler_defs =
  handleFiles_def processQueue_def startItem_def createCardUI_def analyzeAudio_def analyzeTry_def
  updateCardStatus_def enqueue_def newDetector_def mapDelete_def statuses_def summary_def Let_def

text \<open>
  Claim C8 on a batch of three files with the default limit of 2. Every call of
  \<^verbatim>\<open>analyzeAudio\<close> gets an item whose card is \<^verbatim>\<open>null\<close>, marks it \<^verbatim>\<open>processing\<close> in
  \<^verbatim>\<open>processingQueue\<close>, throws, and throws again in its \<^verbatim>\<open>catch\<close> block before the item
  is removed. After the first pass two items are marked processing; after the second pass
  the queue is empty, three items are marked processing at once, no file has a result and
  no card shows an error.
\<close>

theorem items_stuck_processing:
  "summary (handleFiles decodeAll threeFiles newDetector) =
     ([(3, Queued)], [(1, Processing), (2, Processing)], [], [(2, []), (1, [])]) \<and>
   map_option summary (runTimers decodeAll 5 (handleFiles decodeAll threeFiles newDetector)) =
     Some ([], [(1, Processing), (2, Processing), (3, Processing)], [], [(3, []), (2, []), (1, [])])"
  by (simp add: scheduler_defs threeFiles_def)

text \<open>
  Claim C9 on a batch of a file that fails to decode and a file that decodes. The sibling
  that decodes does not complete: neither file gets a result, neither card shows an error,
  and both stay in \<^verbatim>\<open>processingQueue\<close> marked processing.
\<close>

theorem sibling_never_completes:
  "decodeGood ''broken.mp3'' = None \<and> decodeGood ''good.flac'' = Some (Num 44100, rolloff) \<and>
   map_option summary (runTimers decodeGood 5 (handleFiles decodeGood twoFiles newDetector)) =
     Some ([], [(1, Processing), (2, Processing)], [], [(2, []), (1, [])])"
  by (simp add: scheduler_defs twoFiles_def decodeGood_def)

text \<open>
  The same holds for every batch: an item without a card leaves \<^verbatim>\<open>analyzeAudio\<close> with a
  rejected promise whatever its decoding would give, every item that \<^verbatim>\<open>handleFiles\<close>
  queues is without a card, and so no run of the scheduler ever records a result.
\<close>

lemma analyzeAudio_null_card:
  assumes "cardEl fd = None"
  shows "analyzeAudio decode fd d =
     (Rejected TypeError,
      d\<lparr>processingQueue := mapSet (fileId fd) (fd\<lparr>status := Processing\<rparr>) (processingQueue d)\<rparr>)"
  using assms by (simp add: analyzeAudio_def analyzeTry_def updateCardStatus_def Let_def)

lemma analyze_batch_results:
  assumes "\<forall>fd \<in> set batch. cardEl fd = None"
  shows "results (fold (\<lambda>fd d. snd (analyzeAudio decode fd d)) batch d) = results d \<and>
         queue (fold (\<lambda>fd d. snd (analyzeAudio decode fd d)) batch d) = queue d"
  using assms by (induction batch arbitrary: d) (simp_all add: analyzeAudio_null_card)

lemma start_batch_results:
  "results (fold startItem batch d) = results d \<and>
   set (queue (fold startItem batch d)) \<subseteq> set (queue d)"
proof (induction batch arbitrary: d)
  case Nil
  then show ?case by simp
next
  case (Cons fd batch)
  have "results (startItem fd d) = results d" "set (queue (startItem fd d)) \<subseteq> set (queue d)"
    by (auto simp: startItem_def createCardUI_def mapDelete_def Let_def)
  with Cons.IH [of "startItem fd d"] show ?case by auto
qed

lemma cardless_subset:
  "set m' \<subseteq> set m \<Longrightarrow> cardless m \<Longrightarrow> cardless m'"
  unfolding cardless_def list_all_iff by blast

lemma processQueue_results:
  assumes "cardless (queue d)"
  shows "results (processQueue decode d) = results d \<and> cardless (queue (processQueue decode d))"
proof (cases "isProcessing d \<or> queue d = []")
  case True
  with assms show ?thesis by (simp add: processQueue_def)
next
  case False
  define d1 where "d1 = d\<lparr>isProcessing := True\<rparr>"
  define batch where "batch = map snd (take (min (concurrentLimit d1) (length (queue d1))) (queue d1))"
  define d2 where "d2 = fold startItem batch d1"
  define d3 where "d3 = fold (\<lambda>fd d. snd (analyzeAudio decode fd d)) batch d2"
  have b: "\<forall>fd \<in> set batch. cardEl fd = None"
  proof
    fix fd assume "fd \<in> set batch"
    then obtain k where "(k, fd) \<in> set (take (min (concurrentLimit d1) (length (queue d1))) (queue d1))"
      unfolding batch_def by auto
    then have "(k, fd) \<in> set (queue d)"
      unfolding d1_def by (auto dest: in_set_takeD)
    with assms show "cardEl fd = None"
      unfolding cardless_def list_all_iff by auto
  qed
  have r2: "results d2 = results d" and q2: "set (queue d2) \<subseteq> set (queue d)"
    unfolding d2_def using start_batch_results [of batch d1] by (simp_all add: d1_def)
  have r3: "results d3 = results d2" and q3: "queue d3 = queue d2"
    unfolding d3_def using analyze_batch_results [OF b] by simp_all
  have c3: "cardless (queue d3)"
    unfolding q3 using q2 assms by (rule cardless_subset)
  have p: "processQueue decode d =
      (let d4 = d3\<lparr>isProcessing := False\<rparr>
       in if queue d4 \<noteq> [] then d4 else d4\<lparr>processedCount := 0, totalFiles := 0\<rparr>)"
    using False unfolding processQueue_def d3_def d2_def batch_def d1_def Let_def by simp
  show ?thesis
    unfolding p Let_def using r3 r2 c3 by (simp add: cardless_def)
qed

lemma runTimers_results:
  assumes "runTimers decode fuel d = Some d'" "cardless (queue d)"
  shows "results d' = results d"
  using assms
proof (induction fuel arbitrary: d)
  case 0
  then show ?case by (simp split: if_splits)
next
  case (Suc fuel)
  show ?case
  proof (cases "queue d = []")
    case True
    with Suc.prems show ?thesis by simp
  next
    case False
    with Suc.prems have "runTimers decode fuel (processQueue decode d) = Some d'" by simp
    moreover have "cardless (queue (processQueue decode d))" "results (processQueue decode d) = results d"
      using processQueue_results [OF Suc.prems(2)] by simp_all
    ultimately show ?thesis using Suc.IH by metis
  qed
qed

lemma enqueue_all:
  assumes "cardless (queue d)"
  shows "cardless (queue (fold enqueue fs d)) \<and> results (fold enqueue fs d) = results d"
  using assms
proof (induction fs arbitrary: d)
  case Nil
  then show ?case by simp
next
  case (Cons f fs)
  obtain k x where f: "f = (k, x)" by (cases f)
  have "cardless (mapSet k v m)" if "cardless m" "cardEl v = None" for v :: "'a fileData" and m
    using that by (induction m) (auto simp: cardless_def)
  then have "cardless (queue (enqueue f d))"
    using Cons.prems by (simp add: enqueue_def f)
  moreover have "results (enqueue f d) = results d"
    by (simp add: enqueue_def f)
  ultimately show ?case using Cons.IH [of "enqueue f d"] by simp
qed

lemma no_item_ever_done:
  fixes decode :: "'f decoder"
  assumes "runTimers decode fuel (handleFiles decode audioFiles newDetector) = Some d"
  shows "results d = []"
proof (cases "audioFiles = []")
  case True
  with assms show ?thesis by (auto simp add: handleFiles_def newDetector_def)
next
  case False
  define d0 :: "'f detector" where "d0 = newDetector\<lparr>totalFiles := totalFiles (newDetector :: 'f detector) + length audioFiles\<rparr>"
  have c0: "cardless (queue d0)" "results d0 = []"
    by (simp_all add: d0_def newDetector_def cardless_def)
  have h: "handleFiles decode audioFiles newDetector = processQueue decode (fold enqueue audioFiles d0)"
    using False by (simp add: handleFiles_def d0_def Let_def)
  have e: "cardless (queue (fold enqueue audioFiles d0))" "results (fold enqueue audioFiles d0) = []"
    using enqueue_all [OF c0(1), of audioFiles] c0(2) by simp_all
  have "cardless (queue (handleFiles decode audioFiles newDetector))"
    "results (handleFiles decode audioFiles newDetector) = []"
    unfolding h using processQueue_results [OF e(1), of decode] e(2) by simp_all
  with runTimers_results [OF assms] show ?thesis by simp
qed

text \<open>
  Every run of the scheduler on a submitted batch ends: a pass of a ready detector takes
  at least the first file off the queue.
\<close>

lemma analyzeAudio_frame:
  "queue (snd (analyzeAudio decode fd d)) = queue d \<and>
   isProcessing (snd (analyzeAudio decode fd d)) = isProcessing d \<and>
   concurrentLimit (snd (analyzeAudio decode fd d)) = concurrentLimit d"
  by (simp add: analyzeAudio_def analyzeTry_def updateCardStatus_def Let_def
      split: sum.splits option.splits prod.splits)

lemma analyze_batch_frame:
  "queue (fold (\<lambda>fd d. snd (analyzeAudio decode fd d)) batch d) = queue d \<and>
   concurrentLimit (fold (\<lambda>fd d. snd (analyzeAudio decode fd d)) batch d) = concurrentLimit d"
  by (induction batch arbitrary: d) (simp_all add: analyzeAudio_frame)

lemma startItem_frame:
  "queue (startItem fd d) = mapDelete (fileId fd) (queue d) \<and>
   concurrentLimit (startItem fd d) = concurrentLimit d"
  by (simp add: startItem_def createCardUI_def Let_def)

lemma start_batch_frame:
  "length (queue (fold startItem batch d)) \<le> length (queue d) \<and>
   concurrentLimit (fold startItem batch d) = concurrentLimit d"
proof (induction batch arbitrary: d)
  case Nil
  then show ?case by simp
next
  case (Cons fd batch)
  have "length (queue (startItem fd d)) \<le> length (queue d)"
    by (simp add: startItem_frame mapDelete_def)
  with Cons.IH [of "startItem fd d"] show ?case
    by (simp add: startItem_frame)
qed

lemma keyed_subset: "set m' \<subseteq> set m \<Longrightarrow> keyed m \<Longrightarrow> keyed m'"
  unfolding keyed_def list_all_iff by blast

lemma processQueue_progress:
  assumes "ready d" "queue d \<noteq> []"
  shows "length (queue (processQueue decode d)) < length (queue d) \<and> ready (processQueue decode d)"
proof -
  obtain k fd rest where q: "queue d = (k, fd) # rest" using assms(2) by (cases "queue d") auto
  have kd: "fileId fd = k" using assms(1) by (simp add: ready_def keyed_def q)
  define d1 where "d1 = d\<lparr>isProcessing := True\<rparr>"
  define n where "n = min (concurrentLimit d1) (length (queue d1))"
  define batch where "batch = map snd (take n (queue d1))"
  define d2 where "d2 = fold startItem batch d1"
  define d3 where "d3 = fold (\<lambda>fd d. snd (analyzeAudio decode fd d)) batch d2"
  have "0 < n" using assms by (simp add: n_def d1_def ready_def q)
  then obtain m where n: "n = Suc m" by (cases n) auto
  have b: "batch = fd # map snd (take m rest)"
    by (simp add: batch_def n d1_def q)
  have "length (queue (startItem fd d1)) < length (queue d)"
    by (simp add: startItem_frame d1_def q kd mapDelete_def le_imp_less_Suc)
  moreover have "length (queue d2) \<le> length (queue (startItem fd d1))"
    unfolding d2_def b using start_batch_frame [of "map snd (take m rest)" "startItem fd d1"] by simp
  ultimately have l2: "length (queue d2) < length (queue d)" by simp
  have s2: "set (queue d2) \<subseteq> set (queue d)"
    unfolding d2_def using start_batch_results [of batch d1] by (simp add: d1_def)
  have c2: "concurrentLimit d2 = concurrentLimit d"
    unfolding d2_def using start_batch_frame [of batch d1] by (simp add: d1_def)
  have q3: "queue d3 = queue d2" and c3: "concurrentLimit d3 = concurrentLimit d2"
    unfolding d3_def using analyze_batch_frame [of decode batch d2] by simp_all
  have k3: "keyed (queue d3)"
    unfolding q3 using s2 assms(1) by (auto simp: ready_def intro: keyed_subset)
  have p: "processQueue decode d =
      (let d4 = d3\<lparr>isProcessing := False\<rparr>
       in if queue d4 \<noteq> [] then d4 else d4\<lparr>processedCount := 0, totalFiles := 0\<rparr>)"
    using assms unfolding processQueue_def d3_def d2_def batch_def n_def d1_def Let_def ready_def by simp
  show ?thesis
    unfolding p Let_def using l2 q3 c3 c2 k3 assms(1) assms(2) by (simp add: ready_def keyed_def)
qed

lemma runTimers_ends:
  assumes "ready d" "length (queue d) \<le> fuel"
  shows "\<exists>d'. runTimers decode fuel d = Some d'"
  using assms
proof (induction fuel arbitrary: d)
  case 0
  then show ?case by simp
next
  case (Suc fuel)
  show ?case
  proof (cases "queue d = []")
    case True
    then show ?thesis by simp
  next
    case False
    from processQueue_progress [OF Suc.prems(1) False, of decode]
    have "ready (processQueue decode d)" "length (queue (processQueue decode d)) \<le> fuel"
      using Suc.prems(2) by simp_all
    from Suc.IH [OF this] show ?thesis using False by simp
  qed
qed

lemma mapSet_length: "length (mapSet k v m) \<le> Suc (length m)"
  by (induction m) auto

lemma mapSet_keyed: "keyed m \<Longrightarrow> fileId v = k \<Longrightarrow> keyed (mapSet k v m)"
  by (induction m) (auto simp: keyed_def)

lemma enqueue_ready:
  assumes "ready d"
  shows "ready (fold enqueue fs d) \<and> length (queue (fold enqueue fs d)) \<le> length (queue d) + length fs"
  using assms
proof (induction fs arbitrary: d)
  case Nil
  then show ?case by simp
next
  case (Cons f fs)
  obtain k x where f: "f = (k, x)" by (cases f)
  have r: "ready (enqueue f d)"
    using Cons.prems by (simp add: enqueue_def f ready_def mapSet_keyed)
  have "length (queue (enqueue f d)) \<le> Suc (length (queue d))"
    by (simp add: enqueue_def f mapSet_length)
  with Cons.IH [OF r] show ?case by simp
qed

lemma scheduler_run_ends:
  fixes decode :: "'f decoder"
  shows "\<exists>d. runTimers decode (length audioFiles) (handleFiles decode audioFiles newDetector) = Some d"
proof (cases "audioFiles = []")
  case True
  then show ?thesis by (simp add: handleFiles_def newDetector_def)
next
  case False
  define d0 :: "'f detector" where
    "d0 = newDetector\<lparr>totalFiles := totalFiles (newDetector :: 'f detector) + length audioFiles\<rparr>"
  define d1 where "d1 = fold enqueue audioFiles d0"
  have r0: "ready d0" "queue d0 = []"
    by (simp_all add: d0_def newDetector_def ready_def keyed_def)
  have r1: "ready d1" "length (queue d1) \<le> length audioFiles"
    unfolding d1_def using enqueue_ready [OF r0(1), of audioFiles] r0(2) by simp_all
  have h: "handleFiles decode audioFiles newDetector = processQueue decode d1"
    using False by (simp add: handleFiles_def d1_def d0_def Let_def)
  show ?thesis
  proof (cases "queue d1 = []")
    case True
    then have "processQueue decode d1 = d1" by (simp add: processQueue_def)
    with True show ?thesis unfolding h by simp
  next
    case False
    from processQueue_progress [OF r1(1) False, of decode]
    have "ready (processQueue decode d1)" "length (queue (processQueue decode d1)) \<le> length audioFiles"
      using r1(2) by simp_all
    then show ?thesis unfolding h by (rule runTimers_ends)
  qed
qed

lemma every_run_ends_without_results:
  fixes decode :: "'f decoder"
  shows "\<exists>d. runTimers decode (length audioFiles) (handleFiles decode audioFiles newDetector) = Some d \<and>
             results d = []"
  using scheduler_run_ends [of decode audioFiles] no_item_ever_done [of decode "length audioFiles" audioFiles]
  by blast

end
